theory Spec2Isabelle
  imports Complex_Main
begin

section \<open>Python values and effects\<close>

text \<open>
  The device simulator is Python. Integers are unbounded (\<open>int\<close>), strings are lists of
  characters (one list element per character of the Python string), and a method that
  mutates its object becomes a function that returns the object's new value. What a
  method prints is kept as a list of reports, in order, together with the other effects
  a property may speak about: a simulated latency and a draw of the random failure.
  A report records which message is printed and the values interpolated into it, not
  the formatted text.
\<close>

datatype exn =
  IndexError | KeyError | AttributeError | ValueError | ZeroDivisionError | OverflowError | OSError

datatype report =
    RamNotEnough int
  | RamAllocated int int int
  | RamFreed int int int
  | SpoolingFull
  | Enqueued string string
  | NoPending
  | Blocked string
  | DeviceWriting string string
  | DeviceReading string string
  | UnknownOperation string
  | InterruptDone string
  | OutOfRange string int
  | WriteFailure string int
  | ReadFailure string int
  | Wrote string int string
  | CacheHit string int string
  | ReadFrom string int string
  | CacheEvict string int
  | NotInserted string
  | Removed string
  | Inserted string

datatype event = Latency | FailureDraw | Print report

text \<open>
  \<open>xs[i]\<close> in Python: an index from \<open>-len\<close> to \<open>len - 1\<close> names a position, negative
  ones counting from the end; any other index raises IndexError (here \<open>None\<close>).
\<close>

definition py_pos :: "nat \<Rightarrow> int \<Rightarrow> nat option" where
  "py_pos n i =
     (if 0 \<le> i \<and> i < int n then Some (nat i)
      else if i < 0 \<and> - int n \<le> i then Some (nat (int n + i))
      else None)"

text \<open>\<open>xs[:n]\<close> in Python: the first \<open>n\<close> elements, or all but the last \<open>-n\<close> when \<open>n < 0\<close>.\<close>

definition py_prefix :: "'a list \<Rightarrow> int \<Rightarrow> 'a list" where
  "py_prefix xs n = (if 0 \<le> n then take (nat n) xs else take (length xs - nat (- n)) xs)"

section \<open>The resource accountant (RAMManager)\<close>

record RAMManager =
  size_ram :: int
  used :: int

definition RAMManager_init :: "int \<Rightarrow> RAMManager" where
  "RAMManager_init sz = \<lparr>size_ram = sz, used = 0\<rparr>"

definition allocate :: "RAMManager \<Rightarrow> int \<Rightarrow> RAMManager \<times> event list \<times> bool" where
  "allocate r amount =
     (if used r + amount > size_ram r then (r, [Print (RamNotEnough amount)], False)
      else (let r' = r\<lparr>used := used r + amount\<rparr>
            in (r', [Print (RamAllocated amount (used r') (size_ram r'))], True)))"

definition free :: "RAMManager \<Rightarrow> int \<Rightarrow> RAMManager \<times> event list" where
  "free r amount =
     (let r' = r\<lparr>used := max 0 (used r - amount)\<rparr>
      in (r', [Print (RamFreed amount (used r') (size_ram r'))]))"

text \<open>A sequence of calls on one accountant, in program order.\<close>

datatype ram_call = Allocate int | Free int

fun amount_of :: "ram_call \<Rightarrow> int" where
  "amount_of (Allocate a) = a"
| "amount_of (Free a) = a"

fun ram_step :: "RAMManager \<Rightarrow> ram_call \<Rightarrow> RAMManager" where
  "ram_step r (Allocate a) = fst (allocate r a)"
| "ram_step r (Free a) = fst (free r a)"

definition ram_run :: "RAMManager \<Rightarrow> ram_call list \<Rightarrow> RAMManager" where
  "ram_run r calls = foldl ram_step r calls"

definition ram_inv :: "RAMManager \<Rightarrow> bool" where
  "ram_inv r = (0 \<le> used r \<and> used r \<le> size_ram r)"

section \<open>The internal block device (InternalMemoryDevice)\<close>

text \<open>
  The cache is a Python OrderedDict: an association list in insertion order, oldest
  entry first, with at most one entry per key. \<open>move_to_end\<close> raises KeyError for a
  key that is absent; \<open>popitem(last=False)\<close> removes the first entry and raises KeyError
  on an empty dictionary.
\<close>

definition move_to_end :: "('k \<times> 'v) list \<Rightarrow> 'k \<Rightarrow> exn + ('k \<times> 'v) list" where
  "move_to_end c k =
     (case map_of c k of
        None \<Rightarrow> Inl KeyError
      | Some v \<Rightarrow> Inr (filter (\<lambda>p. fst p \<noteq> k) c @ [(k, v)]))"

definition popitem_first :: "('k \<times> 'v) list \<Rightarrow> exn + (('k \<times> 'v) \<times> ('k \<times> 'v) list)" where
  "popitem_first c = (case c of [] \<Rightarrow> Inl KeyError | p # rest \<Rightarrow> Inr (p, rest))"

datatype block_tag = BlockFree | BlockUsed

record InternalMemoryDevice =
  name_imd :: string
  block_size :: int
  total_blocks :: int
  storage :: "string list"
  block_state :: "block_tag list"
  cache :: "(int \<times> string) list"
  cache_size :: int

text \<open>
  The constructor divides the capacity by the block size (floor division, an error when
  the block size is 0) and builds that many empty slots; a list repeated a negative
  number of times is empty. The lock is not modelled: one call runs at a time. The
  failure probability is not a field: whether \<open>simulate_failure\<close> reports a failure is
  an argument (\<open>fail\<close>) of the call that draws it.
\<close>

definition InternalMemoryDevice_init ::
    "string \<Rightarrow> int \<Rightarrow> int \<Rightarrow> int \<Rightarrow> exn + InternalMemoryDevice" where
  "InternalMemoryDevice_init nm capacity bs cs =
     (if bs = 0 then Inl ZeroDivisionError
      else Inr \<lparr>name_imd = nm, block_size = bs, total_blocks = capacity div bs,
                storage = replicate (nat (capacity div bs)) [],
                block_state = replicate (nat (capacity div bs)) BlockFree,
                cache = [], cache_size = cs\<rparr>)"

definition update_cache ::
    "InternalMemoryDevice \<Rightarrow> int \<Rightarrow> string \<Rightarrow> InternalMemoryDevice \<times> event list \<times> (exn + unit)" where
  "update_cache d block_num dat =
     (if block_num \<in> fst ` set (cache d) then
        (case move_to_end (cache d) block_num of
           Inl e \<Rightarrow> (d, [], Inl e)
         | Inr c \<Rightarrow> (d\<lparr>cache := c\<rparr>, [], Inr ()))
      else if int (length (cache d)) \<ge> cache_size d then
        (case popitem_first (cache d) of
           Inl e \<Rightarrow> (d, [], Inl e)
         | Inr (evicted, rest) \<Rightarrow>
             (d\<lparr>cache := rest @ [(block_num, dat)]\<rparr>,
              [Print (CacheEvict (name_imd d) (fst evicted))], Inr ()))
      else (d\<lparr>cache := cache d @ [(block_num, dat)]\<rparr>, [], Inr ()))"

definition write_block ::
    "InternalMemoryDevice \<Rightarrow> int \<Rightarrow> string \<Rightarrow> bool
      \<Rightarrow> InternalMemoryDevice \<times> event list \<times> (exn + bool)" where
  "write_block d block_num dat fail =
     (if block_num \<ge> total_blocks d then
        (d, [Latency, Print (OutOfRange (name_imd d) block_num)], Inr False)
      else if fail then
        (d, [Latency, FailureDraw, Print (WriteFailure (name_imd d) block_num)], Inr False)
      else
        (case py_pos (length (storage d)) block_num of
           None \<Rightarrow> (d, [Latency, FailureDraw], Inl IndexError)
         | Some p \<Rightarrow>
            (let d1 = d\<lparr>storage := (storage d)[p := py_prefix dat (block_size d)]\<rparr>
             in case py_pos (length (block_state d1)) block_num of
                  None \<Rightarrow> (d1, [Latency, FailureDraw], Inl IndexError)
                | Some q \<Rightarrow>
                   (let d2 = d1\<lparr>block_state := (block_state d1)[q := BlockUsed]\<rparr>
                    in case update_cache d2 block_num (py_prefix dat (block_size d2)) of
                         (d3, ev, Inl e) \<Rightarrow> (d3, [Latency, FailureDraw] @ ev, Inl e)
                       | (d3, ev, Inr u) \<Rightarrow>
                           (d3, [Latency, FailureDraw] @ ev
                                @ [Print (Wrote (name_imd d3) block_num (py_prefix dat 30))],
                            Inr True)))))"

definition read_block ::
    "InternalMemoryDevice \<Rightarrow> int \<Rightarrow> bool
      \<Rightarrow> InternalMemoryDevice \<times> event list \<times> (exn + string)" where
  "read_block d block_num fail =
     (if block_num \<ge> total_blocks d then
        (d, [Latency, Print (OutOfRange (name_imd d) block_num)], Inr [])
      else if fail then
        (d, [Latency, FailureDraw, Print (ReadFailure (name_imd d) block_num)],
         Inr ''[BLOCK READ FAILURE]'')
      else
        (case map_of (cache d) block_num of
           Some v \<Rightarrow>
             (case move_to_end (cache d) block_num of
                Inl e \<Rightarrow>
                  (d, [Latency, FailureDraw,
                       Print (CacheHit (name_imd d) block_num (py_prefix v 30))], Inl e)
              | Inr c \<Rightarrow>
                  (d\<lparr>cache := c\<rparr>,
                   [Latency, FailureDraw,
                    Print (CacheHit (name_imd d) block_num (py_prefix v 30))], Inr v))
         | None \<Rightarrow>
             (case py_pos (length (storage d)) block_num of
                None \<Rightarrow> (d, [Latency, FailureDraw], Inl IndexError)
              | Some p \<Rightarrow>
                 (case update_cache d block_num (storage d ! p) of
                    (d1, ev, Inl e) \<Rightarrow> (d1, [Latency, FailureDraw] @ ev, Inl e)
                  | (d1, ev, Inr u) \<Rightarrow>
                      (d1, [Latency, FailureDraw] @ ev
                           @ [Print (ReadFrom (name_imd d1) block_num
                                       (py_prefix (storage d ! p) 30))],
                       Inr (storage d ! p))))))"

section \<open>The simulator's devices and the removable block device\<close>

text \<open>
  A Device has a name, a busy flag and a buffer. The buffer is a string, except for the
  keyboard driver, whose constructor replaces it by a bounded queue of key events; the
  simulator only ever takes its length or overwrites it with a string.
\<close>

datatype buffer = Text string | KeyEvents "(string \<times> string) list"

fun buffer_len :: "buffer \<Rightarrow> nat" where
  "buffer_len (Text t) = length t"
| "buffer_len (KeyEvents es) = length es"

record Device =
  name :: string
  busy :: bool
  buffer :: buffer

definition Device_init :: "string \<Rightarrow> Device" where
  "Device_init nm = \<lparr>name = nm, busy = False, buffer = Text []\<rparr>"

record RemovableMemoryDevice = Device +
  capacity :: int
  block_size_rm :: int
  total_blocks_rm :: int
  storage_rm :: "string list"
  inserted :: bool
  block_state_rm :: "block_tag list"

definition RemovableMemoryDevice_init :: "string \<Rightarrow> int \<Rightarrow> int \<Rightarrow> exn + RemovableMemoryDevice" where
  "RemovableMemoryDevice_init nm cap bs =
     (if bs = 0 then Inl ZeroDivisionError
      else Inr \<lparr>name = nm, busy = False, buffer = Text [],
                capacity = cap, block_size_rm = bs, total_blocks_rm = cap div bs,
                storage_rm = replicate (nat (cap div bs)) [], inserted = True,
                block_state_rm = replicate (nat (cap div bs)) BlockFree\<rparr>)"

definition eject :: "RemovableMemoryDevice \<Rightarrow> RemovableMemoryDevice \<times> event list" where
  "eject d = (d\<lparr>inserted := False\<rparr>, [Print (Removed (name d))])"

definition insert_rm :: "RemovableMemoryDevice \<Rightarrow> RemovableMemoryDevice \<times> event list" where
  "insert_rm d = (d\<lparr>inserted := True\<rparr>, [Print (Inserted (name d))])"

definition write_block_rm ::
    "RemovableMemoryDevice \<Rightarrow> int \<Rightarrow> string \<Rightarrow> bool
      \<Rightarrow> RemovableMemoryDevice \<times> event list \<times> (exn + bool)" where
  "write_block_rm d block_num dat fail =
     (if \<not> inserted d then (d, [Print (NotInserted (name d))], Inr False)
      else if block_num \<ge> total_blocks_rm d then
        (d, [Print (OutOfRange (name d) block_num)], Inr False)
      else if fail then
        (d, [Latency, FailureDraw, Print (WriteFailure (name d) block_num)], Inr False)
      else
        (case py_pos (length (storage_rm d)) block_num of
           None \<Rightarrow> (d, [Latency, FailureDraw], Inl IndexError)
         | Some p \<Rightarrow>
            (let d1 = d\<lparr>storage_rm := (storage_rm d)[p := py_prefix dat (block_size_rm d)]\<rparr>
             in case py_pos (length (block_state_rm d1)) block_num of
                  None \<Rightarrow> (d1, [Latency, FailureDraw], Inl IndexError)
                | Some q \<Rightarrow>
                    (d1\<lparr>block_state_rm := (block_state_rm d1)[q := BlockUsed]\<rparr>,
                     [Latency, FailureDraw,
                      Print (Wrote (name d1) block_num (py_prefix dat 30))],
                     Inr True))))"

definition read_block_rm ::
    "RemovableMemoryDevice \<Rightarrow> int \<Rightarrow> bool
      \<Rightarrow> RemovableMemoryDevice \<times> event list \<times> (exn + string)" where
  "read_block_rm d block_num fail =
     (if \<not> inserted d then (d, [Print (NotInserted (name d))], Inr [])
      else if block_num \<ge> total_blocks_rm d then
        (d, [Print (OutOfRange (name d) block_num)], Inr [])
      else if fail then
        (d, [Latency, FailureDraw, Print (ReadFailure (name d) block_num)],
         Inr ''[READ FAILURE]'')
      else
        (case py_pos (length (storage_rm d)) block_num of
           None \<Rightarrow> (d, [Latency, FailureDraw], Inl IndexError)
         | Some p \<Rightarrow>
            (d, [Latency, FailureDraw,
                 Print (ReadFrom (name d) block_num (py_prefix (storage_rm d ! p) 30))],
             Inr (storage_rm d ! p))))"

section \<open>The simulator (DeviceDriverSimulator)\<close>

text \<open>
  The simulator reads and writes only the name, the busy flag and the buffer of the
  objects in its device list. A slot therefore holds the Device part of the object, or,
  for an object that is not a Device, its name alone: InternalMemoryDevice does not
  inherit from Device and has neither a busy flag nor a buffer, so reading its busy flag
  raises AttributeError. The queue is a deque built with \<open>maxlen = queue_size\<close>:
  appending to a full one drops entries from the front.
\<close>

datatype dev_obj = Dev Device | Obj string

fun obj_name :: "dev_obj \<Rightarrow> string" where
  "obj_name (Dev d) = name d"
| "obj_name (Obj n) = n"

record IORequest =
  device_id :: int
  operation :: string
  data :: string

definition deque_append :: "int \<Rightarrow> 'a list \<Rightarrow> 'a \<Rightarrow> 'a list" where
  "deque_append maxlen q x = drop (length (q @ [x]) - nat maxlen) (q @ [x])"

record DeviceDriverSimulator =
  BUFFER_SIZE :: int
  IO_QUEUE_SIZE :: int
  devices :: "dev_obj list"
  io_queue :: "IORequest list"
  io_queue_maxlen :: int
  ram :: RAMManager

definition DeviceDriverSimulator_init :: "int \<Rightarrow> int \<Rightarrow> int \<Rightarrow> exn + DeviceDriverSimulator" where
  "DeviceDriverSimulator_init ram_size buffer_size queue_size =
     (if queue_size < 0 then Inl ValueError
      else Inr \<lparr>BUFFER_SIZE = buffer_size, IO_QUEUE_SIZE = queue_size,
                devices = [Obj ''SSD'', Dev (Device_init ''USB Stick''),
                           Dev ((Device_init ''Keyboard'')\<lparr>buffer := KeyEvents []\<rparr>)],
                io_queue = [], io_queue_maxlen = queue_size,
                ram = RAMManager_init ram_size\<rparr>)"

definition enqueue_io ::
    "DeviceDriverSimulator \<Rightarrow> int \<Rightarrow> string \<Rightarrow> string
      \<Rightarrow> DeviceDriverSimulator \<times> event list \<times> (exn + unit)" where
  "enqueue_io s dev_id opn dat =
     (if int (length (io_queue s)) \<ge> IO_QUEUE_SIZE s then (s, [Print SpoolingFull], Inr ())
      else
        (let request = \<lparr>device_id = dev_id, operation = opn, data = dat\<rparr>;
             s1 = s\<lparr>io_queue := deque_append (io_queue_maxlen s) (io_queue s) request\<rparr>
         in case py_pos (length (devices s1)) dev_id of
              None \<Rightarrow> (s1, [], Inl IndexError)
            | Some j \<Rightarrow> (s1, [Print (Enqueued opn (obj_name (devices s1 ! j)))], Inr ())))"

text \<open>
  The driver and the interrupt handler receive the device object \<open>dev\<close>; here they
  receive its position \<open>j\<close> in the device list and its value \<open>d\<close>, and store the
  changed value back at \<open>j\<close>.
\<close>

definition device_driver ::
    "DeviceDriverSimulator \<Rightarrow> nat \<Rightarrow> Device \<Rightarrow> IORequest
      \<Rightarrow> DeviceDriverSimulator \<times> Device \<times> event list" where
  "device_driver s j d req =
     (let d1 = d\<lparr>busy := True\<rparr>
      in if operation req = ''write'' then
           (let d2 = d1\<lparr>buffer := Text (py_prefix (data req) (BUFFER_SIZE s))\<rparr>;
                a = allocate (ram s) (int (buffer_len (buffer d2)))
            in (s\<lparr>devices := (devices s)[j := Dev d2], ram := fst a\<rparr>, d2,
                fst (snd a) @
                (if snd (snd a)
                 then [Print (DeviceWriting (name d2) (py_prefix (data req) (BUFFER_SIZE s)))]
                 else [])))
         else if operation req = ''read'' then
           (let d2 = d1\<lparr>buffer := Text ''Simulated input''\<rparr>;
                a = allocate (ram s) (int (buffer_len (buffer d2)))
            in (s\<lparr>devices := (devices s)[j := Dev d2], ram := fst a\<rparr>, d2,
                fst (snd a) @
                (if snd (snd a) then [Print (DeviceReading (name d2) ''Simulated input'')]
                 else [])))
         else (s\<lparr>devices := (devices s)[j := Dev d1]\<rparr>, d1,
               [Print (UnknownOperation (operation req))]))"

definition interrupt_handler ::
    "DeviceDriverSimulator \<Rightarrow> nat \<Rightarrow> Device \<Rightarrow> DeviceDriverSimulator \<times> event list" where
  "interrupt_handler s j d =
     (let f = free (ram s) (int (buffer_len (buffer d)))
      in (s\<lparr>ram := fst f, devices := (devices s)[j := Dev (d\<lparr>buffer := Text [], busy := False\<rparr>)]\<rparr>,
          Print (InterruptDone (name d)) # snd f))"

definition handle_io ::
    "DeviceDriverSimulator \<Rightarrow> DeviceDriverSimulator \<times> event list \<times> (exn + unit)" where
  "handle_io s =
     (case io_queue s of
        [] \<Rightarrow> (s, [Print NoPending], Inr ())
      | req # rest \<Rightarrow>
         (let s1 = s\<lparr>io_queue := rest\<rparr>
          in case py_pos (length (devices s1)) (device_id req) of
               None \<Rightarrow> (s1, [], Inl IndexError)
             | Some j \<Rightarrow>
                (case devices s1 ! j of
                   Obj n \<Rightarrow> (s1, [], Inl AttributeError)
                 | Dev d \<Rightarrow>
                    if busy d then
                      (case enqueue_io s1 (device_id req) (operation req) (data req) of
                         (s2, ev, res) \<Rightarrow> (s2, Print (Blocked (name d)) # ev, res))
                    else
                      (case device_driver s1 j d req of
                         (s2, d2, ev2) \<Rightarrow>
                           (case interrupt_handler s2 j d2 of
                              (s3, ev3) \<Rightarrow> (s3, ev2 @ ev3, Inr ()))))))"

section \<open>The bus-attached USB driver (USBDriver)\<close>

text \<open>
  The transfer time is a Python float. Its type \<open>'f\<close> and the two operations of the
  host on it are parameters of the model: \<open>fdiv\<close> is the division \<open>/\<close> (which raises
  for a zero divisor) and \<open>sleep\<close> is \<open>time.sleep\<close>, which returns nothing (\<open>None\<close>) after
  blocking for the given time or raises (for a negative or non-finite argument).
  The handlers stored in the interrupt table are the driver's two bound methods.
\<close>

record DeviceControlBlock =
  device_id_dcb :: int
  device_name :: string
  capacity_gb :: int
  is_connected :: bool

definition DeviceControlBlock_init :: "int \<Rightarrow> string \<Rightarrow> int \<Rightarrow> DeviceControlBlock" where
  "DeviceControlBlock_init i nm c =
     \<lparr>device_id_dcb = i, device_name = nm, capacity_gb = c, is_connected = True\<rparr>"

datatype handler = OnUsbInsert | OnUsbRemove

record InterruptTable =
  interrupt_handlers :: "string \<rightharpoonup> handler"

definition InterruptTable_init :: InterruptTable where
  "InterruptTable_init = \<lparr>interrupt_handlers = Map.empty\<rparr>"

definition register_interrupt_handler :: "InterruptTable \<Rightarrow> string \<Rightarrow> handler \<Rightarrow> InterruptTable" where
  "register_interrupt_handler t interrupt_type h =
     t\<lparr>interrupt_handlers := (interrupt_handlers t)(interrupt_type \<mapsto> h)\<rparr>"

record 'f IOOPeration =
  operation_type :: string
  data_size_mb :: 'f
  process_name :: string

datatype 'f usb_report =
    UsbConnected string
  | UsbDisconnected string
  | UsbNotConnected string
  | UsbStarting "'f IOOPeration" string
  | UsbFinished string 'f
  | UsbFailed exn
  | NoHandler string

datatype 'f usb_event = UsbPrint "'f usb_report" | Sleep 'f

record 'f USBDriver =
  dcb :: DeviceControlBlock
  interrupt_table :: InterruptTable
  transfer_rate_mb_s :: 'f

text \<open>The constructor; \<open>rate\<close> stands for the float literal 30.0 of the source.\<close>

definition USBDriver_init :: "DeviceControlBlock \<Rightarrow> InterruptTable \<Rightarrow> 'f \<Rightarrow> 'f USBDriver" where
  "USBDriver_init device_control_block table rate =
     \<lparr>dcb = device_control_block,
      interrupt_table =
        register_interrupt_handler
          (register_interrupt_handler table ''USB_INSERT'' OnUsbInsert)
          ''USB_REMOVE'' OnUsbRemove,
      transfer_rate_mb_s = rate\<rparr>"

definition on_usb_insert :: "'f USBDriver \<Rightarrow> 'f USBDriver \<times> 'f usb_event list" where
  "on_usb_insert drv =
     (drv\<lparr>dcb := (dcb drv)\<lparr>is_connected := True\<rparr>\<rparr>,
      [UsbPrint (UsbConnected (device_name (dcb drv)))])"

definition on_usb_remove :: "'f USBDriver \<Rightarrow> 'f USBDriver \<times> 'f usb_event list" where
  "on_usb_remove drv =
     (drv\<lparr>dcb := (dcb drv)\<lparr>is_connected := False\<rparr>\<rparr>,
      [UsbPrint (UsbDisconnected (device_name (dcb drv)))])"

definition trigger_interrupt :: "'f USBDriver \<Rightarrow> string \<Rightarrow> 'f USBDriver \<times> 'f usb_event list" where
  "trigger_interrupt drv interrupt_type =
     (case interrupt_handlers (interrupt_table drv) interrupt_type of
        Some OnUsbInsert \<Rightarrow> on_usb_insert drv
      | Some OnUsbRemove \<Rightarrow> on_usb_remove drv
      | None \<Rightarrow> (drv, [UsbPrint (NoHandler interrupt_type)]))"

definition perform_operation ::
    "('f \<Rightarrow> 'f \<Rightarrow> exn + 'f) \<Rightarrow> ('f \<Rightarrow> exn option) \<Rightarrow> 'f USBDriver \<Rightarrow> 'f IOOPeration
      \<Rightarrow> 'f usb_event list \<times> (exn + unit)" where
  "perform_operation fdiv sleep drv io_operation =
     (if \<not> is_connected (dcb drv) then
        ([UsbPrint (UsbNotConnected (device_name (dcb drv)))], Inr ())
      else
        (let starting = UsbPrint (UsbStarting io_operation (device_name (dcb drv)))
         in case fdiv (data_size_mb io_operation) (transfer_rate_mb_s drv) of
              Inl e \<Rightarrow>
                (if e = OSError then ([starting, UsbPrint (UsbFailed e)], Inr ())
                 else ([starting], Inl e))
            | Inr transfer_time \<Rightarrow>
                (case sleep transfer_time of
                   Some e \<Rightarrow>
                     (if e = OSError then ([starting, UsbPrint (UsbFailed e)], Inr ())
                      else ([starting], Inl e))
                 | None \<Rightarrow>
                     ([starting, Sleep transfer_time,
                       UsbPrint (UsbFinished (device_name (dcb drv)) transfer_time)],
                      Inr ()))))"

text \<open>
  A sequence of calls on one simulator. A call that raises leaves the simulator as it
  was at the moment of the exception, and the next call runs on that state.
\<close>

datatype sim_call = EnqueueIO int string string | HandleIO

fun sim_step :: "DeviceDriverSimulator \<Rightarrow> sim_call \<Rightarrow> DeviceDriverSimulator" where
  "sim_step s (EnqueueIO i opn dat) = fst (enqueue_io s i opn dat)"
| "sim_step s HandleIO = fst (handle_io s)"

definition sim_run :: "DeviceDriverSimulator \<Rightarrow> sim_call list \<Rightarrow> DeviceDriverSimulator" where
  "sim_run s calls = foldl sim_step s calls"

definition queue_inv :: "DeviceDriverSimulator \<Rightarrow> bool" where
  "queue_inv s =
     (io_queue_maxlen s = IO_QUEUE_SIZE s \<and> int (length (io_queue s)) \<le> IO_QUEUE_SIZE s)"

section \<open>Sequences of block operations and the LRU policy\<close>

text \<open>
  A sequence of \<open>write_block\<close> and \<open>read_block\<close> calls on one internal device; each call
  carries the outcome of its failure draw. The run stops at the first exception.
  A call touches the cache when it passes the range check and draws no failure.
\<close>

datatype blk_call = WriteBlock int string bool | ReadBlock int bool

fun call_block :: "blk_call \<Rightarrow> int" where
  "call_block (WriteBlock i dat f) = i"
| "call_block (ReadBlock i f) = i"

fun call_fail :: "blk_call \<Rightarrow> bool" where
  "call_fail (WriteBlock i dat f) = f"
| "call_fail (ReadBlock i f) = f"

fun blk_step :: "InternalMemoryDevice \<Rightarrow> blk_call \<Rightarrow> exn + InternalMemoryDevice" where
  "blk_step d (WriteBlock i dat f) =
     (case write_block d i dat f of (d', ev, Inl e) \<Rightarrow> Inl e | (d', ev, Inr b) \<Rightarrow> Inr d')"
| "blk_step d (ReadBlock i f) =
     (case read_block d i f of (d', ev, Inl e) \<Rightarrow> Inl e | (d', ev, Inr v) \<Rightarrow> Inr d')"

fun blk_run :: "InternalMemoryDevice \<Rightarrow> blk_call list \<Rightarrow> exn + InternalMemoryDevice" where
  "blk_run d [] = Inr d"
| "blk_run d (c # cs) = (case blk_step d c of Inl e \<Rightarrow> Inl e | Inr d' \<Rightarrow> blk_run d' cs)"

definition touches :: "int \<Rightarrow> blk_call \<Rightarrow> bool" where
  "touches tb c = (call_block c < tb \<and> \<not> call_fail c)"

definition touched :: "int \<Rightarrow> blk_call list \<Rightarrow> int list" where
  "touched tb calls = map call_block (filter (touches tb) calls)"

text \<open>
  The policy in the words of the specification. \<open>recent n ks\<close> are the \<open>n\<close> most
  recently touched distinct block indices of the touch sequence \<open>ks\<close>, least recent
  first (\<open>remdups\<close> keeps the last occurrence of each index). \<open>lru_touch n keys k\<close> is one
  step of a strict LRU cache of capacity \<open>n\<close>: a key that is present moves to the
  most-recently-used end; a new key is placed there, after dropping exactly the first
  (least recently used) key when the cache is full.
\<close>

definition lastn :: "nat \<Rightarrow> 'a list \<Rightarrow> 'a list" where
  "lastn n xs = drop (length xs - n) xs"

definition recent :: "nat \<Rightarrow> 'a list \<Rightarrow> 'a list" where
  "recent n ks = lastn n (remdups ks)"

definition lru_touch :: "nat \<Rightarrow> 'a list \<Rightarrow> 'a \<Rightarrow> 'a list" where
  "lru_touch n keys k =
     (if k \<in> set keys then removeAll k keys @ [k]
      else if length keys < n then keys @ [k]
      else tl keys @ [k])"

text \<open>
  What the constructor establishes and every call keeps: the two arrays have
  \<open>total_blocks\<close> slots, and the sizes are the ones given.
\<close>

definition imd_inv :: "int \<Rightarrow> int \<Rightarrow> InternalMemoryDevice \<Rightarrow> bool" where
  "imd_inv tb cs d =
     (total_blocks d = tb \<and> cache_size d = cs
      \<and> length (storage d) = nat tb \<and> length (block_state d) = nat tb)"

text \<open>The reports of a block index out of range among the effects of a call.\<close>

fun is_range_error :: "event \<Rightarrow> bool" where
  "is_range_error (Print (OutOfRange n i)) = True"
| "is_range_error e = False"

section \<open>Concrete inputs\<close>

text \<open>A two-block removable device after \<open>write_block(0, "abc")\<close>.\<close>

definition usb_stick :: RemovableMemoryDevice where
  "usb_stick = \<lparr>name = ''USB Stick'', busy = False, buffer = Text [],
                capacity = 256, block_size_rm = 128, total_blocks_rm = 2,
                storage_rm = [''abc'', []], inserted = True,
                block_state_rm = [BlockUsed, BlockFree]\<rparr>"

text \<open>The simulator \<open>DeviceDriverSimulator(1024, 128, 2)\<close> as its constructor leaves it.\<close>

definition fresh_sim :: DeviceDriverSimulator where
  "fresh_sim = \<lparr>BUFFER_SIZE = 128, IO_QUEUE_SIZE = 2,
                devices = [Obj ''SSD'',
                           Dev \<lparr>name = ''USB Stick'', busy = False, buffer = Text []\<rparr>,
                           Dev \<lparr>name = ''Keyboard'', busy = False, buffer = KeyEvents []\<rparr>],
                io_queue = [], io_queue_maxlen = 2, ram = \<lparr>size_ram = 1024, used = 0\<rparr>\<rparr>"

text \<open>The same simulator with two requests queued and the USB stick marked busy.\<close>

definition busy_sim :: DeviceDriverSimulator where
  "busy_sim = fresh_sim
     \<lparr>devices := [Obj ''SSD'',
                  Dev \<lparr>name = ''USB Stick'', busy = True, buffer = Text ''pending''\<rparr>,
                  Dev \<lparr>name = ''Keyboard'', busy = False, buffer = KeyEvents []\<rparr>],
      io_queue := [\<lparr>device_id = 1, operation = ''write'', data = ''hello''\<rparr>,
                   \<lparr>device_id = 2, operation = ''read'', data = []\<rparr>]\<rparr>"

text \<open>Exact rational arithmetic as one instance of the host's float operations.\<close>

definition exact_div :: "rat \<Rightarrow> rat \<Rightarrow> exn + rat" where
  "exact_div a b = (if b = 0 then Inl ZeroDivisionError else Inr (a / b))"

definition sleep_nonneg :: "rat \<Rightarrow> exn option" where
  "sleep_nonneg t = (if t < 0 then Some ValueError else None)"

definition usb_driver :: "rat USBDriver" where
  "usb_driver = USBDriver_init (DeviceControlBlock_init 1 ''USB'' 128) InterruptTable_init 30"

text \<open>The device \<open>InternalMemoryDevice("SSD", 1024, 256, 2)\<close> as its constructor leaves it.\<close>

definition fresh_ssd :: InternalMemoryDevice where
  "fresh_ssd = \<lparr>name_imd = ''SSD'', block_size = 256, total_blocks = 4,
                 storage = [[], [], [], []],
                 block_state = [BlockFree, BlockFree, BlockFree, BlockFree],
                 cache = [], cache_size = 2\<rparr>"

text \<open>A two-block internal device after \<open>write_block(0, "old")\<close>.\<close>

definition cached_dev :: InternalMemoryDevice where
  "cached_dev = \<lparr>name_imd = ''SSD'', block_size = 256, total_blocks = 2,
                 storage = [''old'', []], block_state = [BlockUsed, BlockFree],
                 cache = [(0, ''old'')], cache_size = 4\<rparr>"

text \<open>A three-block internal device with a full cache of two entries.\<close>

definition small_ssd :: InternalMemoryDevice where
  "small_ssd = \<lparr>name_imd = ''SSD'', block_size = 4, total_blocks = 3,
                 storage = [''aaaa'', ''bb'', []], block_state = [BlockUsed, BlockUsed, BlockFree],
                 cache = [(0, ''aaaa''), (1, ''bb'')], cache_size = 2\<rparr>"

text \<open>The simulator \<open>DeviceDriverSimulator(10, 128, 2)\<close>: an accountant of 10 bytes.\<close>

definition tight_sim :: DeviceDriverSimulator where
  "tight_sim = fresh_sim\<lparr>ram := \<lparr>size_ram = 10, used = 0\<rparr>\<rparr>"

section \<open>Properties of the resource accountant\<close>

lemma allocate_result: "snd (snd (allocate r a)) = (used r + a \<le> size_ram r)"
  by (auto simp: allocate_def Let_def)

lemma allocate_size: "size_ram (fst (allocate r a)) = size_ram r"
  by (simp add: allocate_def Let_def)

lemma free_size: "size_ram (fst (free r a)) = size_ram r"
  by (simp add: free_def Let_def)

lemma free_used: "used (fst (free r a)) = max 0 (used r - a)"
  by (simp add: free_def Let_def)

lemma ram_step_size: "size_ram (ram_step r c) = size_ram r"
  by (cases c) (simp_all add: allocate_size free_size)

lemma ram_step_inv:
  assumes "ram_inv r" and "0 \<le> amount_of c"
  shows "ram_inv (ram_step r c)"
proof (cases c)
  case (Allocate a)
  with assms show ?thesis
    by (auto simp: ram_inv_def allocate_def Let_def)
next
  case (Free a)
  with assms show ?thesis
    by (auto simp: ram_inv_def free_def Let_def)
qed

lemma ram_run_inv:
  "ram_inv r \<Longrightarrow> \<forall>c\<in>set calls. 0 \<le> amount_of c \<Longrightarrow> ram_inv (ram_run r calls)"
  unfolding ram_run_def
proof (induction calls arbitrary: r)
  case Nil
  then show ?case by simp
next
  case (Cons c calls)
  from Cons.prems have "ram_inv (ram_step r c)"
    by (simp add: ram_step_inv)
  with Cons show ?case by simp
qed

lemma ram_run_size: "size_ram (ram_run r calls) = size_ram r"
  unfolding ram_run_def
  by (induction calls arbitrary: r) (simp_all add: ram_step_size)

text \<open>
  C2. \<open>allocate(amount)\<close> returns True exactly when \<open>used + amount \<le> capacity\<close>. When it
  returns True, \<open>used\<close> has grown by exactly \<open>amount\<close> and the capacity is as before; when
  it returns False (a plain boolean: the model has no exceptional outcome for it) the
  accountant is unchanged. On a fresh accountant of capacity 1024, \<open>allocate(2048)\<close> is
  rejected and \<open>used\<close> stays 0.
\<close>

theorem allocate_iff_fits:
  "snd (snd (allocate r amount)) = (used r + amount \<le> size_ram r)
   \<and> (snd (snd (allocate r amount)) \<longrightarrow>
        fst (allocate r amount) = r\<lparr>used := used r + amount\<rparr>)
   \<and> (\<not> snd (snd (allocate r amount)) \<longrightarrow> fst (allocate r amount) = r)
   \<and> snd (snd (allocate (RAMManager_init 1024) 2048)) = False
   \<and> used (fst (allocate (RAMManager_init 1024) 2048)) = 0"
  by (auto simp: allocate_def Let_def RAMManager_init_def)

theorem allocate_iff_fits_witness:
  "snd (snd (allocate \<lparr>size_ram = 1024, used = 100\<rparr> 24))
   \<and> fst (allocate \<lparr>size_ram = 1024, used = 100\<rparr> 24) = \<lparr>size_ram = 1024, used = 124\<rparr>
   \<and> \<not> snd (snd (allocate \<lparr>size_ram = 1024, used = 1000\<rparr> 25))
   \<and> fst (allocate \<lparr>size_ram = 1024, used = 1000\<rparr> 25) = \<lparr>size_ram = 1024, used = 1000\<rparr>"
  using allocate_iff_fits [of "\<lparr>size_ram = 1024, used = 100\<rparr>" 24]
    allocate_iff_fits [of "\<lparr>size_ram = 1024, used = 1000\<rparr>" 25]
  by simp

text \<open>
  C3. Start from a fresh accountant of capacity \<open>cap \<ge> 0\<close> and make any sequence of
  \<open>allocate\<close> and \<open>free\<close> calls with non-negative amounts. After every prefix of the
  sequence (so at every moment), \<open>0 \<le> used \<le> cap\<close>. A \<open>free(amount)\<close> sets \<open>used\<close> to
  \<open>max(0, used - amount)\<close>: it floors at zero and has no failing outcome.
\<close>

theorem used_within_capacity:
  assumes "0 \<le> cap" and "\<forall>c\<in>set calls. 0 \<le> amount_of c"
  shows "(\<forall>k. 0 \<le> used (ram_run (RAMManager_init cap) (take k calls))
             \<and> used (ram_run (RAMManager_init cap) (take k calls)) \<le> cap)
         \<and> (\<forall>r a. used (fst (free r a)) = max 0 (used r - a))"
proof -
  have init: "ram_inv (RAMManager_init cap)"
    using assms(1) by (simp add: ram_inv_def RAMManager_init_def)
  have "\<And>k. ram_inv (ram_run (RAMManager_init cap) (take k calls))"
  proof -
    fix k
    have "\<forall>c\<in>set (take k calls). 0 \<le> amount_of c"
      using assms(2) by (meson in_set_takeD)
    with init show "ram_inv (ram_run (RAMManager_init cap) (take k calls))"
      by (rule ram_run_inv)
  qed
  moreover have "\<And>k. size_ram (ram_run (RAMManager_init cap) (take k calls)) = cap"
    by (simp add: ram_run_size RAMManager_init_def)
  ultimately show ?thesis
    by (simp add: ram_inv_def free_used)
qed

theorem used_within_capacity_witness:
  "used (ram_run (RAMManager_init 100) [Allocate 60, Allocate 60, Free 80, Free 5]) = 0
   \<and> used (ram_run (RAMManager_init 100) (take 2 [Allocate 60, Allocate 60, Free 80, Free 5])) = 60
   \<and> (\<forall>k. 0 \<le> used (ram_run (RAMManager_init 100)
                        (take k [Allocate 60, Allocate 60, Free 80, Free 5]))
          \<and> used (ram_run (RAMManager_init 100)
                        (take k [Allocate 60, Allocate 60, Free 80, Free 5])) \<le> 100)"
proof -
  have a: "(0::int) \<le> 100" by simp
  have b: "\<forall>c\<in>set [Allocate 60, Allocate 60, Free 80, Free 5]. 0 \<le> amount_of c" by simp
  have c: "used (ram_run (RAMManager_init 100) [Allocate 60, Allocate 60, Free 80, Free 5]) = 0"
    by (simp add: ram_run_def allocate_def free_def RAMManager_init_def Let_def)
  have d: "used (ram_run (RAMManager_init 100)
                  (take 2 [Allocate 60, Allocate 60, Free 80, Free 5])) = 60"
    by (simp add: ram_run_def allocate_def free_def RAMManager_init_def Let_def)
  from used_within_capacity [OF a b] c d show ?thesis by blast
qed

section \<open>Properties of the removable device\<close>

lemma usb_stick_reached:
  "RemovableMemoryDevice_init ''USB Stick'' 256 128 = Inr d0
   \<Longrightarrow> fst (write_block_rm d0 0 ''abc'' False) = usb_stick"
  by (auto simp: RemovableMemoryDevice_init_def write_block_rm_def usb_stick_def py_pos_def
      py_prefix_def Let_def eval_nat_numeral)

text \<open>
  C7. On a removable device whose \<open>inserted\<close> flag is false, \<open>write_block\<close> and
  \<open>read_block\<close> return at once, for every index, payload and outcome of the failure
  draw: the only effect is the not-inserted report (no latency, no failure draw), the
  result is False respectively the empty string, and the device (storage array and
  block states included) is the one passed in. After \<open>eject()\<close>, \<open>read_block(0)\<close> reports
  not-inserted, and \<open>eject\<close> itself leaves storage and block states as they were.
\<close>

theorem not_inserted_fails_fast:
  assumes "\<not> inserted d"
  shows "write_block_rm d i dat fail = (d, [Print (NotInserted (name d))], Inr False)
       \<and> read_block_rm d i fail = (d, [Print (NotInserted (name d))], Inr [])
       \<and> read_block_rm (fst (eject d')) 0 fail
           = (fst (eject d'), [Print (NotInserted (name d'))], Inr [])
       \<and> storage_rm (fst (eject d')) = storage_rm d'
       \<and> block_state_rm (fst (eject d')) = block_state_rm d'"
  using assms by (simp add: write_block_rm_def read_block_rm_def eject_def)

theorem not_inserted_fails_fast_witness:
  "\<not> inserted (fst (eject usb_stick))
   \<and> write_block_rm (fst (eject usb_stick)) 1 ''xyz'' True
       = (fst (eject usb_stick), [Print (NotInserted ''USB Stick'')], Inr False)
   \<and> read_block_rm (fst (eject usb_stick)) 0 True
       = (fst (eject usb_stick), [Print (NotInserted ''USB Stick'')], Inr [])
   \<and> storage_rm (fst (eject usb_stick)) = [''abc'', []]"
proof -
  have h: "\<not> inserted (fst (eject usb_stick))"
    by (simp add: eject_def)
  have n: "name (fst (eject usb_stick)) = ''USB Stick''"
    by (simp add: eject_def usb_stick_def)
  have s: "storage_rm usb_stick = [''abc'', []]"
    by (simp add: usb_stick_def)
  from not_inserted_fails_fast [OF h, of 1 "''xyz''" True usb_stick]
       not_inserted_fails_fast [OF h, of 0 "''xyz''" True usb_stick] h n s
  show ?thesis by simp
qed

section \<open>Properties of the USB driver\<close>

text \<open>
  The demonstration at the end of the source file raises the removal with a trailing
  space in the event name. No handler is registered under that name, so the driver
  stays connected; the handlers themselves are registered under the names without it.
\<close>

lemma remove_event_with_trailing_space:
  "trigger_interrupt usb_driver ''USB_REMOVE '' = (usb_driver, [UsbPrint (NoHandler ''USB_REMOVE '')])
   \<and> is_connected (dcb usb_driver)"
  by (simp add: trigger_interrupt_def usb_driver_def USBDriver_init_def
      register_interrupt_handler_def InterruptTable_init_def DeviceControlBlock_init_def)

text \<open>
  C8. The constructor registers the two handlers: on a driver just constructed, raising
  \<open>USB_INSERT\<close> leaves the connection flag true and raising \<open>USB_REMOVE\<close> leaves it false.
  \<open>perform_operation\<close> on a disconnected driver only prints the not-connected error: no
  duration is computed or slept. On a connected driver, when the host's division of the
  payload size by the transfer rate yields \<open>t\<close> and the host's sleep accepts \<open>t\<close>, the
  effects are, in order: the start report, a sleep of exactly \<open>t\<close>, the completion
  report. After the remove event on a fresh driver, \<open>perform_operation\<close> reports the
  not-connected error and sleeps for nothing.
\<close>

theorem usb_operation_needs_connection:
  "is_connected (dcb (fst (trigger_interrupt (USBDriver_init blk tbl rate) ''USB_INSERT'')))
   \<and> \<not> is_connected (dcb (fst (trigger_interrupt (USBDriver_init blk tbl rate) ''USB_REMOVE'')))
   \<and> (\<not> is_connected (dcb drv) \<longrightarrow>
        perform_operation fdiv sleep drv io_op
          = ([UsbPrint (UsbNotConnected (device_name (dcb drv)))], Inr ()))
   \<and> (is_connected (dcb drv) \<and> fdiv (data_size_mb io_op) (transfer_rate_mb_s drv) = Inr t
        \<and> sleep t = None \<longrightarrow>
        perform_operation fdiv sleep drv io_op
          = ([UsbPrint (UsbStarting io_op (device_name (dcb drv))), Sleep t,
              UsbPrint (UsbFinished (device_name (dcb drv)) t)], Inr ()))
   \<and> perform_operation fdiv sleep
        (fst (trigger_interrupt (USBDriver_init blk tbl rate) ''USB_REMOVE'')) io_op
       = ([UsbPrint (UsbNotConnected (device_name blk))], Inr ())"
  by (simp add: perform_operation_def trigger_interrupt_def USBDriver_init_def
      register_interrupt_handler_def on_usb_insert_def on_usb_remove_def)

theorem usb_operation_needs_connection_witness:
  "is_connected (dcb usb_driver)
   \<and> exact_div 200 (transfer_rate_mb_s usb_driver) = Inr (20 / 3)
   \<and> sleep_nonneg (20 / 3) = None
   \<and> perform_operation exact_div sleep_nonneg usb_driver
        \<lparr>operation_type = ''WRITE'', data_size_mb = 200, process_name = ''Process A''\<rparr>
       = ([UsbPrint (UsbStarting
             \<lparr>operation_type = ''WRITE'', data_size_mb = 200, process_name = ''Process A''\<rparr>
             ''USB''),
           Sleep (20 / 3), UsbPrint (UsbFinished ''USB'' (20 / 3))], Inr ())
   \<and> \<not> is_connected (dcb (fst (on_usb_remove usb_driver)))
   \<and> perform_operation exact_div sleep_nonneg (fst (on_usb_remove usb_driver))
        \<lparr>operation_type = ''WRITE'', data_size_mb = 200, process_name = ''Process A''\<rparr>
       = ([UsbPrint (UsbNotConnected ''USB'')], Inr ())"
proof -
  have c: "is_connected (dcb usb_driver)" and n: "device_name (dcb usb_driver) = ''USB''"
    by (simp_all add: usb_driver_def USBDriver_init_def DeviceControlBlock_init_def)
  have d: "exact_div 200 (transfer_rate_mb_s usb_driver) = Inr (20 / 3)"
    by (simp add: exact_div_def usb_driver_def USBDriver_init_def)
  have s: "sleep_nonneg (20 / 3) = None"
    by (simp add: sleep_nonneg_def)
  have r: "\<not> is_connected (dcb (fst (on_usb_remove usb_driver)))"
    and rn: "device_name (dcb (fst (on_usb_remove usb_driver))) = ''USB''"
    using n by (simp_all add: on_usb_remove_def)
  from usb_operation_needs_connection [where drv = usb_driver and fdiv = exact_div
         and sleep = sleep_nonneg and t = "20 / 3"
         and io_op = "\<lparr>operation_type = ''WRITE'', data_size_mb = 200, process_name = ''Process A''\<rparr>"]
       usb_operation_needs_connection [where drv = "fst (on_usb_remove usb_driver)"
         and fdiv = exact_div and sleep = sleep_nonneg and t = "20 / 3"
         and io_op = "\<lparr>operation_type = ''WRITE'', data_size_mb = 200, process_name = ''Process A''\<rparr>"]
       c n d s r rn
  show ?thesis by simp
qed

section \<open>Properties of the request queue\<close>

lemma fresh_sim_constructed: "DeviceDriverSimulator_init 1024 128 2 = Inr fresh_sim"
  by (simp add: DeviceDriverSimulator_init_def fresh_sim_def Device_init_def RAMManager_init_def)

lemma enqueue_io_full:
  "int (length (io_queue s)) \<ge> IO_QUEUE_SIZE s
   \<Longrightarrow> enqueue_io s i opn dat = (s, [Print SpoolingFull], Inr ())"
  by (simp add: enqueue_io_def)

lemma enqueue_io_room:
  assumes "int (length (io_queue s)) < IO_QUEUE_SIZE s" and "io_queue_maxlen s = IO_QUEUE_SIZE s"
  shows "fst (enqueue_io s i opn dat)
         = s\<lparr>io_queue := io_queue s @ [\<lparr>device_id = i, operation = opn, data = dat\<rparr>]\<rparr>"
  using assms by (simp add: enqueue_io_def deque_append_def Let_def split: option.splits)

lemma enqueue_io_consts:
  "IO_QUEUE_SIZE (fst (enqueue_io s i opn dat)) = IO_QUEUE_SIZE s
   \<and> io_queue_maxlen (fst (enqueue_io s i opn dat)) = io_queue_maxlen s
   \<and> devices (fst (enqueue_io s i opn dat)) = devices s
   \<and> ram (fst (enqueue_io s i opn dat)) = ram s
   \<and> BUFFER_SIZE (fst (enqueue_io s i opn dat)) = BUFFER_SIZE s"
  by (simp add: enqueue_io_def Let_def split: option.splits)

lemma enqueue_io_inv: "queue_inv s \<Longrightarrow> queue_inv (fst (enqueue_io s i opn dat))"
  by (auto simp: queue_inv_def enqueue_io_def deque_append_def Let_def split: option.splits)

lemma handle_io_inv:
  assumes inv: "queue_inv s"
  shows "queue_inv (fst (handle_io s))"
proof (cases "io_queue s")
  case Nil
  with inv show ?thesis by (simp add: handle_io_def)
next
  case (Cons req rest)
  let ?s1 = "s\<lparr>io_queue := rest\<rparr>"
  have inv1: "queue_inv ?s1"
    using inv Cons by (simp add: queue_inv_def)
  have e: "queue_inv (fst (enqueue_io ?s1 (device_id req) (operation req) (data req)))"
    using inv1 by (rule enqueue_io_inv)
  show ?thesis
    using inv1 e Cons
    by (auto simp: handle_io_def Let_def device_driver_def interrupt_handler_def queue_inv_def
        split: option.splits dev_obj.splits prod.splits)
qed

lemma handle_io_capacity: "IO_QUEUE_SIZE (fst (handle_io s)) = IO_QUEUE_SIZE s"
  by (auto simp: handle_io_def Let_def device_driver_def interrupt_handler_def enqueue_io_def
      split: option.splits dev_obj.splits prod.splits list.splits)

lemma sim_run_inv: "queue_inv s \<Longrightarrow> queue_inv (sim_run s calls)"
  unfolding sim_run_def
proof (induction calls arbitrary: s)
  case Nil
  then show ?case by simp
next
  case (Cons c calls)
  have "queue_inv (sim_step s c)"
    using Cons.prems by (cases c) (simp_all add: enqueue_io_inv handle_io_inv)
  then show ?case using Cons.IH by simp
qed

lemma sim_run_capacity: "IO_QUEUE_SIZE (sim_run s calls) = IO_QUEUE_SIZE s"
  unfolding sim_run_def
proof (induction calls arbitrary: s)
  case Nil
  then show ?case by simp
next
  case (Cons c calls)
  have "IO_QUEUE_SIZE (sim_step s c) = IO_QUEUE_SIZE s"
    by (cases c) (simp_all add: enqueue_io_consts handle_io_capacity)
  then show ?case using Cons.IH by simp
qed

lemma init_queue_inv:
  "DeviceDriverSimulator_init rs bs qs = Inr s0 \<Longrightarrow> queue_inv s0 \<and> IO_QUEUE_SIZE s0 = qs"
  by (auto simp: DeviceDriverSimulator_init_def queue_inv_def split: if_splits)

text \<open>
  C6. Let the head of the queue be a request whose target device is busy, in a
  simulator whose queue respects its bound (as every state reached from the
  constructor does). Then \<open>handle_io\<close> returns normally with the same request (same
  device_id, operation and payload) appended behind the rest of the queue; it prints
  the blocked and the enqueued report, calls neither the driver nor the interrupt
  handler, and leaves the device list, the accountant and every other field as they were.
\<close>

theorem busy_device_requeues:
  assumes "io_queue s = req # rest"
    and "py_pos (length (devices s)) (device_id req) = Some j"
    and "devices s ! j = Dev d"
    and "busy d"
    and "int (length (io_queue s)) \<le> IO_QUEUE_SIZE s"
    and "io_queue_maxlen s = IO_QUEUE_SIZE s"
  shows "handle_io s = (s\<lparr>io_queue := rest @ [req]\<rparr>,
                        [Print (Blocked (name d)), Print (Enqueued (operation req) (name d))],
                        Inr ())"
  using assms by (simp add: handle_io_def enqueue_io_def deque_append_def Let_def)

theorem busy_device_requeues_witness:
  "handle_io busy_sim
   = (busy_sim\<lparr>io_queue := [\<lparr>device_id = 2, operation = ''read'', data = []\<rparr>,
                              \<lparr>device_id = 1, operation = ''write'', data = ''hello''\<rparr>]\<rparr>,
      [Print (Blocked ''USB Stick''), Print (Enqueued ''write'' ''USB Stick'')], Inr ())"
proof -
  have q: "io_queue busy_sim = \<lparr>device_id = 1, operation = ''write'', data = ''hello''\<rparr>
                               # [\<lparr>device_id = 2, operation = ''read'', data = []\<rparr>]"
    by (simp add: busy_sim_def)
  have p: "py_pos (length (devices busy_sim))
             (device_id \<lparr>device_id = 1, operation = ''write'', data = ''hello''\<rparr>) = Some 1"
    by (simp add: busy_sim_def py_pos_def)
  have d: "devices busy_sim ! 1 = Dev \<lparr>name = ''USB Stick'', busy = True, buffer = Text ''pending''\<rparr>"
    by (simp add: busy_sim_def)
  have b: "busy \<lparr>name = ''USB Stick'', busy = True, buffer = Text ''pending''\<rparr>"
    by simp
  have l: "int (length (io_queue busy_sim)) \<le> IO_QUEUE_SIZE busy_sim"
    by (simp add: busy_sim_def fresh_sim_def)
  have m: "io_queue_maxlen busy_sim = IO_QUEUE_SIZE busy_sim"
    by (simp add: busy_sim_def fresh_sim_def)
  from busy_device_requeues [OF q p d b l m] show ?thesis by simp
qed

text \<open>
  C9. Take any state \<open>s\<close> that a simulator constructed with queue capacity
  \<open>queue_size\<close> reaches through a sequence of \<open>enqueue_io\<close> and \<open>handle_io\<close> calls. If the
  queue of \<open>s\<close> already holds \<open>queue_size\<close> requests, \<open>enqueue_io\<close> prints the queue-full
  report and returns with \<open>s\<close> unchanged: the request is dropped. Otherwise the request
  is appended at the tail and nothing else changes. In every such state the queue
  holds at most \<open>queue_size\<close> requests.
\<close>

theorem enqueue_bounded:
  assumes "DeviceDriverSimulator_init ram_size buffer_size queue_size = Inr s0"
    and "s = sim_run s0 calls"
  shows "(int (length (io_queue s)) \<ge> queue_size \<longrightarrow>
            enqueue_io s i opn dat = (s, [Print SpoolingFull], Inr ()))
       \<and> (int (length (io_queue s)) < queue_size \<longrightarrow>
            fst (enqueue_io s i opn dat)
              = s\<lparr>io_queue := io_queue s @ [\<lparr>device_id = i, operation = opn, data = dat\<rparr>]\<rparr>)
       \<and> int (length (io_queue s)) \<le> queue_size"
proof -
  from assms(1) have "queue_inv s0" and "IO_QUEUE_SIZE s0 = queue_size"
    by (simp_all add: init_queue_inv)
  with assms(2) have inv: "queue_inv s" and cap: "IO_QUEUE_SIZE s = queue_size"
    by (simp_all add: sim_run_inv sim_run_capacity)
  from inv have m: "io_queue_maxlen s = IO_QUEUE_SIZE s"
    and l: "int (length (io_queue s)) \<le> IO_QUEUE_SIZE s"
    by (simp_all add: queue_inv_def)
  show ?thesis
    using cap m l by (simp add: enqueue_io_full enqueue_io_room)
qed

theorem enqueue_bounded_witness:
  "length (io_queue (sim_run fresh_sim
             [EnqueueIO 1 ''write'' ''a'', EnqueueIO 2 ''read'' []])) = 2
   \<and> enqueue_io (sim_run fresh_sim [EnqueueIO 1 ''write'' ''a'', EnqueueIO 2 ''read'' []])
        1 ''write'' ''b''
       = (sim_run fresh_sim [EnqueueIO 1 ''write'' ''a'', EnqueueIO 2 ''read'' []],
          [Print SpoolingFull], Inr ())
   \<and> io_queue (fst (enqueue_io (sim_run fresh_sim [EnqueueIO 1 ''write'' ''a'']) 2 ''read'' []))
       = [\<lparr>device_id = 1, operation = ''write'', data = ''a''\<rparr>,
          \<lparr>device_id = 2, operation = ''read'', data = []\<rparr>]"
proof -
  have two: "io_queue (sim_run fresh_sim [EnqueueIO 1 ''write'' ''a'', EnqueueIO 2 ''read'' []])
             = [\<lparr>device_id = 1, operation = ''write'', data = ''a''\<rparr>,
                \<lparr>device_id = 2, operation = ''read'', data = []\<rparr>]"
    by (simp add: sim_run_def enqueue_io_def deque_append_def fresh_sim_def py_pos_def Let_def)
  have one: "io_queue (sim_run fresh_sim [EnqueueIO 1 ''write'' ''a''])
             = [\<lparr>device_id = 1, operation = ''write'', data = ''a''\<rparr>]"
    by (simp add: sim_run_def enqueue_io_def deque_append_def fresh_sim_def py_pos_def Let_def)
  from enqueue_bounded [OF fresh_sim_constructed refl, of
         "[EnqueueIO 1 ''write'' ''a'', EnqueueIO 2 ''read'' []]" 1 "''write''" "''b''"]
       enqueue_bounded [OF fresh_sim_constructed refl, of
         "[EnqueueIO 1 ''write'' ''a'']" 2 "''read''" "[]"]
       two one
  show ?thesis by simp
qed


section \<open>Properties of the internal block device\<close>

lemma cached_dev_reached:
  "InternalMemoryDevice_init ''SSD'' 512 256 4 = Inr d0
   \<Longrightarrow> write_block d0 0 ''old'' False
       = (cached_dev, [Latency, FailureDraw, Print (Wrote ''SSD'' 0 ''old'')], Inr True)"
  by (auto simp: InternalMemoryDevice_init_def write_block_def update_cache_def cached_dev_def
      py_pos_def py_prefix_def Let_def eval_nat_numeral)

lemma map_of_without_key: "map_of (filter (\<lambda>p. fst p \<noteq> k) c) k = None"
  by (induction c) auto

lemma map_of_absent: "k \<notin> fst ` set c \<Longrightarrow> map_of c k = None"
  by (simp add: map_of_eq_None_iff)

lemma map_of_move_to_end:
  "move_to_end c k = Inr c' \<Longrightarrow> map_of c' k = map_of c k"
  by (auto simp: move_to_end_def map_add_def map_of_without_key split: option.splits)

lemma update_cache_lookup:
  assumes "update_cache d i dat = (d', ev, Inr u)"
  shows "map_of (cache d') i = (case map_of (cache d) i of Some v \<Rightarrow> Some v | None \<Rightarrow> Some dat)"
proof (cases "i \<in> fst ` set (cache d)")
  case True
  then obtain v where v: "map_of (cache d) i = Some v"
    by (metis map_of_eq_None_iff not_Some_eq)
  from assms True obtain c where "move_to_end (cache d) i = Inr c" and "cache d' = c"
    by (auto simp: update_cache_def split: sum.splits)
  then have "map_of (cache d') i = map_of (cache d) i"
    by (simp add: map_of_move_to_end)
  with v show ?thesis by simp
next
  case False
  then have none: "map_of (cache d) i = None"
    by (rule map_of_absent)
  from assms False have "\<exists>rest. set rest \<subseteq> set (cache d) \<and> cache d' = rest @ [(i, dat)]"
    by (auto simp: update_cache_def popitem_first_def split: if_splits list.splits)
  then obtain rest where sub: "set rest \<subseteq> set (cache d)" and c: "cache d' = rest @ [(i, dat)]"
    by blast
  from sub False have "i \<notin> fst ` set rest" by auto
  then have "map_of rest i = None" by (rule map_of_absent)
  with c none show ?thesis by (simp add: map_add_def)
qed

lemma update_cache_frame:
  "update_cache d i dat = (d', ev, r) \<Longrightarrow>
   storage d' = storage d \<and> block_state d' = block_state d \<and> block_size d' = block_size d
   \<and> total_blocks d' = total_blocks d \<and> cache_size d' = cache_size d \<and> name_imd d' = name_imd d"
  by (auto simp: update_cache_def split: if_splits sum.splits prod.splits)

text \<open>
  What a successful write does establish: the slot holds the truncated data and is
  marked used; the cache maps the block to the truncated data when the block was not
  cached before, and to the payload it already held otherwise.
\<close>

lemma write_block_success:
  assumes "write_block d i dat fail = (d', ev, Inr True)"
  shows "\<exists>p q. py_pos (length (storage d)) i = Some p \<and> py_pos (length (block_state d)) i = Some q
           \<and> storage d' = (storage d)[p := py_prefix dat (block_size d)]
           \<and> block_state d' = (block_state d)[q := BlockUsed]
           \<and> map_of (cache d') i
               = (case map_of (cache d) i of Some v \<Rightarrow> Some v
                  | None \<Rightarrow> Some (py_prefix dat (block_size d)))"
proof -
  from assms obtain p q ev' u where p: "py_pos (length (storage d)) i = Some p"
    and q: "py_pos (length (block_state d)) i = Some q"
    and uc: "update_cache
               (d\<lparr>storage := (storage d)[p := py_prefix dat (block_size d)],
                  block_state := (block_state d)[q := BlockUsed]\<rparr>)
               i (py_prefix dat (block_size d)) = (d', ev', Inr u)"
    by (auto simp: write_block_def Let_def split: if_splits option.splits prod.splits sum.splits)
  from update_cache_frame [OF uc] update_cache_lookup [OF uc] p q
  show ?thesis by simp
qed

lemma write_block_frame:
  assumes "write_block d i dat fail = (d', ev, r)"
  shows "total_blocks d' = total_blocks d \<and> block_size d' = block_size d
         \<and> cache_size d' = cache_size d \<and> name_imd d' = name_imd d"
  using assms
  by (auto simp: write_block_def Let_def dest!: update_cache_frame
      split: if_splits option.splits prod.splits sum.splits)

text \<open>
  So a read right after the first write of a block returns the truncated payload from
  the cache, as in the scenario of a 300-character payload on 256-character blocks.
\<close>

lemma read_after_first_write:
  assumes w: "write_block d i dat False = (d', ev, Inr True)"
    and new: "map_of (cache d) i = None"
  shows "\<exists>d''. read_block d' i False
           = (d'', [Latency, FailureDraw,
                    Print (CacheHit (name_imd d) i (py_prefix (py_prefix dat (block_size d)) 30))],
              Inr (py_prefix dat (block_size d)))"
proof -
  from w have lt: "\<not> total_blocks d \<le> i"
    by (auto simp: write_block_def split: if_splits)
  from write_block_success [OF w] new
  have c: "map_of (cache d') i = Some (py_prefix dat (block_size d))"
    by auto
  from write_block_frame [OF w] lt c show ?thesis
    by (simp add: read_block_def move_to_end_def)
qed

lemma scenario_300_bytes:
  "storage (fst (write_block fresh_ssd 0 (replicate 300 CHR ''x'') False)) ! 0 = replicate 256 CHR ''x''
   \<and> snd (snd (read_block (fst (write_block fresh_ssd 0 (replicate 300 CHR ''x'') False)) 0 False))
       = Inr (replicate 256 CHR ''x'')"
  by (simp add: write_block_def read_block_def update_cache_def move_to_end_def fresh_ssd_def
      py_pos_def py_prefix_def Let_def min_def)

text \<open>
  C1. After a successful \<open>write_block(i, data)\<close> the cache should map \<open>i\<close> to the
  truncated \<open>data\<close>, also when \<open>i\<close> was already cached with older data, and a read should
  then return these bytes. On \<open>cached_dev\<close>, where block 0 is cached with \<open>old\<close>, it does
  not: \<open>write_block(0, "new")\<close> succeeds and stores \<open>new\<close> in slot 0, but the cache still
  maps 0 to \<open>old\<close> (\<open>update_cache\<close> only moves an existing key to the end), and
  \<open>read_block(0)\<close> afterwards returns \<open>old\<close> from the cache.
\<close>

theorem rewrite_leaves_stale_cache:
  "write_block cached_dev 0 ''new'' False
     = (cached_dev\<lparr>storage := [''new'', []]\<rparr>,
        [Latency, FailureDraw, Print (Wrote ''SSD'' 0 ''new'')], Inr True)
   \<and> map_of (cache (fst (write_block cached_dev 0 ''new'' False))) 0 = Some ''old''
   \<and> py_prefix ''new'' (block_size cached_dev) = ''new''
   \<and> read_block (fst (write_block cached_dev 0 ''new'' False)) 0 False
     = (cached_dev\<lparr>storage := [''new'', []]\<rparr>,
        [Latency, FailureDraw, Print (CacheHit ''SSD'' 0 ''old'')], Inr ''old'')"
  by (simp add: write_block_def read_block_def update_cache_def move_to_end_def cached_dev_def
      py_pos_def py_prefix_def Let_def)


section \<open>Negative block indices\<close>

lemma py_pos_negative:
  "1 \<le> k \<Longrightarrow> k \<le> tb \<Longrightarrow> py_pos (nat tb) (- k) = Some (nat (tb - k))"
  by (simp add: py_pos_def)

lemma update_cache_returns:
  assumes "0 < cache_size d"
  shows "\<exists>d' ev. update_cache d i dat = (d', ev, Inr ()) \<and> filter is_range_error ev = []"
proof (cases "i \<in> fst ` set (cache d)")
  case True
  then obtain v where "map_of (cache d) i = Some v"
    by (metis map_of_eq_None_iff not_Some_eq)
  with True show ?thesis
    by (simp add: update_cache_def move_to_end_def)
next
  case False
  show ?thesis
  proof (cases "cache d")
    case Nil
    with False assms show ?thesis by (simp add: update_cache_def)
  next
    case (Cons e rest)
    with False show ?thesis
      by (simp add: update_cache_def popitem_first_def)
  qed
qed

text \<open>
  C10. Let \<open>1 \<le> k \<le> total_blocks\<close> on a device whose storage and block-state arrays
  have \<open>total_blocks\<close> slots (as the constructor builds them); the internal device has
  a positive cache size, the removable one is inserted. Without a simulated fault,
  \<open>write_block(-k, data)\<close> on either device returns True and writes the truncated data
  and the used mark at position \<open>total_blocks - k\<close>; \<open>read_block(-k)\<close> on the removable
  device returns the content of that position; on the internal device it returns
  what the cache holds under the key \<open>-k\<close>, and on a miss the content of that position.
  With a simulated fault the call reports the fault. In no case is a range error
  reported.
\<close>

theorem negative_index_accepted:
  assumes k: "1 \<le> k"
    and d: "k \<le> total_blocks d" "length (storage d) = nat (total_blocks d)"
           "length (block_state d) = nat (total_blocks d)" "0 < cache_size d"
    and r: "k \<le> total_blocks_rm r" "length (storage_rm r) = nat (total_blocks_rm r)"
           "length (block_state_rm r) = nat (total_blocks_rm r)" "inserted r"
  shows "(\<exists>d' ev. write_block d (- k) dat False = (d', ev, Inr True)
            \<and> filter is_range_error ev = []
            \<and> storage d' = (storage d)[nat (total_blocks d - k) := py_prefix dat (block_size d)]
            \<and> block_state d' = (block_state d)[nat (total_blocks d - k) := BlockUsed])
       \<and> (\<exists>d' ev. read_block d (- k) False
                     = (d', ev, Inr (case map_of (cache d) (- k) of
                                       Some v \<Rightarrow> v
                                     | None \<Rightarrow> storage d ! nat (total_blocks d - k)))
            \<and> filter is_range_error ev = [])
       \<and> write_block_rm r (- k) dat False
           = (r\<lparr>storage_rm := (storage_rm r)[nat (total_blocks_rm r - k)
                                   := py_prefix dat (block_size_rm r)],
                block_state_rm := (block_state_rm r)[nat (total_blocks_rm r - k) := BlockUsed]\<rparr>,
              [Latency, FailureDraw, Print (Wrote (name r) (- k) (py_prefix dat 30))], Inr True)
       \<and> read_block_rm r (- k) False
           = (r, [Latency, FailureDraw,
                  Print (ReadFrom (name r) (- k)
                           (py_prefix (storage_rm r ! nat (total_blocks_rm r - k)) 30))],
              Inr (storage_rm r ! nat (total_blocks_rm r - k)))
       \<and> write_block d (- k) dat True
           = (d, [Latency, FailureDraw, Print (WriteFailure (name_imd d) (- k))], Inr False)
       \<and> read_block d (- k) True
           = (d, [Latency, FailureDraw, Print (ReadFailure (name_imd d) (- k))],
              Inr ''[BLOCK READ FAILURE]'')"
proof -
  have pd: "py_pos (nat (total_blocks d)) (- k) = Some (nat (total_blocks d - k))"
    using k d(1) by (rule py_pos_negative)
  have pr: "py_pos (nat (total_blocks_rm r)) (- k) = Some (nat (total_blocks_rm r - k))"
    using k r(1) by (rule py_pos_negative)
  have lt: "\<not> total_blocks d \<le> - k" and ltr: "\<not> total_blocks_rm r \<le> - k"
    using k d(1) r(1) by simp_all
  let ?d2 = "d\<lparr>storage := (storage d)[nat (total_blocks d - k) := py_prefix dat (block_size d)],
               block_state := (block_state d)[nat (total_blocks d - k) := BlockUsed]\<rparr>"
  have "0 < cache_size ?d2" using d(4) by simp
  from update_cache_returns [OF this, of "- k" "py_prefix dat (block_size d)"]
  obtain d3 ev3 where uc: "update_cache ?d2 (- k) (py_prefix dat (block_size d)) = (d3, ev3, Inr ())"
    and ne3: "filter is_range_error ev3 = []"
    by blast
  have w: "\<exists>d' ev. write_block d (- k) dat False = (d', ev, Inr True)
            \<and> filter is_range_error ev = []
            \<and> storage d' = (storage d)[nat (total_blocks d - k) := py_prefix dat (block_size d)]
            \<and> block_state d' = (block_state d)[nat (total_blocks d - k) := BlockUsed]"
    using lt pd d(2,3) uc ne3 update_cache_frame [OF uc]
    by (simp add: write_block_def Let_def)
  have rd: "\<exists>d' ev. read_block d (- k) False
                     = (d', ev, Inr (case map_of (cache d) (- k) of
                                       Some v \<Rightarrow> v
                                     | None \<Rightarrow> storage d ! nat (total_blocks d - k)))
            \<and> filter is_range_error ev = []"
  proof (cases "map_of (cache d) (- k)")
    case None
    from update_cache_returns [OF d(4), of "- k" "storage d ! nat (total_blocks d - k)"]
    obtain d1 ev1 where "update_cache d (- k) (storage d ! nat (total_blocks d - k)) = (d1, ev1, Inr ())"
      and "filter is_range_error ev1 = []"
      by blast
    with None lt pd d(2) show ?thesis
      by (simp add: read_block_def)
  next
    case (Some v)
    with lt show ?thesis
      by (simp add: read_block_def move_to_end_def)
  qed
  have wr: "write_block_rm r (- k) dat False
           = (r\<lparr>storage_rm := (storage_rm r)[nat (total_blocks_rm r - k)
                                   := py_prefix dat (block_size_rm r)],
                block_state_rm := (block_state_rm r)[nat (total_blocks_rm r - k) := BlockUsed]\<rparr>,
              [Latency, FailureDraw, Print (Wrote (name r) (- k) (py_prefix dat 30))], Inr True)"
    using ltr pr r(2,3,4) by (simp add: write_block_rm_def Let_def)
  have rr: "read_block_rm r (- k) False
           = (r, [Latency, FailureDraw,
                  Print (ReadFrom (name r) (- k)
                           (py_prefix (storage_rm r ! nat (total_blocks_rm r - k)) 30))],
              Inr (storage_rm r ! nat (total_blocks_rm r - k)))"
    using ltr pr r(2,4) by (simp add: read_block_rm_def)
  have wf: "write_block d (- k) dat True
           = (d, [Latency, FailureDraw, Print (WriteFailure (name_imd d) (- k))], Inr False)"
    using lt by (simp add: write_block_def)
  have rf: "read_block d (- k) True
           = (d, [Latency, FailureDraw, Print (ReadFailure (name_imd d) (- k))],
              Inr ''[BLOCK READ FAILURE]'')"
    using lt by (simp add: read_block_def)
  from w rd wr rr wf rf show ?thesis by blast
qed


theorem negative_index_accepted_witness:
  "(\<exists>d' ev. write_block small_ssd (- 2) ''wxyz!'' False = (d', ev, Inr True)
             \<and> storage d' = [''aaaa'', ''wxyz'', []]
             \<and> block_state d' = [BlockUsed, BlockUsed, BlockFree])
   \<and> read_block_rm usb_stick (- 2) False
       = (usb_stick, [Latency, FailureDraw, Print (ReadFrom ''USB Stick'' (- 2) ''abc'')],
          Inr ''abc'')"
proof -
  have k: "(1::int) \<le> 2" by simp
  have d: "2 \<le> total_blocks small_ssd"
    "length (storage small_ssd) = nat (total_blocks small_ssd)"
    "length (block_state small_ssd) = nat (total_blocks small_ssd)"
    "0 < cache_size small_ssd"
    by (simp_all add: small_ssd_def)
  have r: "2 \<le> total_blocks_rm usb_stick"
    "length (storage_rm usb_stick) = nat (total_blocks_rm usb_stick)"
    "length (block_state_rm usb_stick) = nat (total_blocks_rm usb_stick)"
    "inserted usb_stick"
    by (simp_all add: usb_stick_def)
  have s: "(storage small_ssd)[nat (total_blocks small_ssd - 2)
             := py_prefix ''wxyz!'' (block_size small_ssd)] = [''aaaa'', ''wxyz'', []]"
    and b: "(block_state small_ssd)[nat (total_blocks small_ssd - 2) := BlockUsed]
            = [BlockUsed, BlockUsed, BlockFree]"
    by (simp_all add: small_ssd_def py_prefix_def)
  have u: "storage_rm usb_stick ! nat (total_blocks_rm usb_stick - 2) = ''abc''"
    and n: "name usb_stick = ''USB Stick''"
    by (simp_all add: usb_stick_def)
  have p: "py_prefix ''abc'' 30 = ''abc''"
    by (simp add: py_prefix_def)
  from negative_index_accepted [OF k d r, of "''wxyz!''"] s b u n p
  show ?thesis by auto
qed

section \<open>The cache is a strict LRU cache\<close>

lemma remdups_snoc: "remdups (xs @ [x]) = removeAll x (remdups xs) @ [x]"
  by (induction xs) auto

lemma length_removeAll_distinct:
  "distinct xs \<Longrightarrow> x \<in> set xs \<Longrightarrow> Suc (length (removeAll x xs)) = length xs"
  by (induction xs) auto

lemma lastn_touch:
  assumes dist: "distinct L" and pos: "0 < n"
  shows "lastn n (removeAll k L @ [k]) = lru_touch n (lastn n L) k"
proof -
  define A where "A = take (length L - n) L"
  define B where "B = drop (length L - n) L"
  have L: "L = A @ B" and lenA: "length A = length L - n" and B: "lastn n L = B"
    by (simp_all add: A_def B_def lastn_def)
  have lenB: "length B = min n (length L)"
    by (auto simp: B_def)
  from dist L have dA: "distinct A" and dB: "distinct B" and disj: "set A \<inter> set B = {}"
    by auto
  show ?thesis
  proof (cases "k \<in> set B")
    case True
    with disj have "k \<notin> set A" by auto
    then have r: "removeAll k L = A @ removeAll k B"
      by (simp add: L)
    have len: "Suc (length (removeAll k B)) = length B"
      using dB True by (rule length_removeAll_distinct)
    have "length L = length A + length B"
      by (subst L) simp
    with len lenA lenB have "length A + Suc (length (removeAll k B)) - n = length A"
      by arith
    then have "length (removeAll k L @ [k]) - n = length A"
      by (simp add: r)
    then have "lastn n (removeAll k L @ [k]) = removeAll k B @ [k]"
      by (simp add: lastn_def r)
    with True B show ?thesis
      by (simp add: lru_touch_def)
  next
    case False
    then have r: "removeAll k L = removeAll k A @ B"
      by (simp add: L)
    show ?thesis
    proof (cases "length B < n")
      case True
      with lenB lenA have "length A = 0" by arith
      then have "A = []" by simp
      with r True False B show ?thesis
        by (simp add: lastn_def lru_touch_def)
    next
      case full: False
      with lenB have n: "length B = n" by arith
      then have "length (removeAll k L @ [k]) - n = Suc (length (removeAll k A))"
        by (simp add: r)
      then have "lastn n (removeAll k L @ [k]) = drop 1 (B @ [k])"
        by (simp add: lastn_def r)
      moreover have "B \<noteq> []" using n pos by auto
      then have "drop 1 (B @ [k]) = tl B @ [k]"
        by (cases B) simp_all
      ultimately show ?thesis
        using False full B by (simp add: lru_touch_def)
    qed
  qed
qed

lemma recent_snoc: "0 < n \<Longrightarrow> recent n (ks @ [k]) = lru_touch n (recent n ks) k"
  by (simp add: recent_def remdups_snoc lastn_touch)

lemma length_recent: "length (recent n ks) = min n (card (set ks))"
  by (auto simp: recent_def lastn_def length_remdups_card_conv)


lemma in_drop_around:
  assumes "k \<notin> set X" and "k \<notin> set Y"
  shows "k \<in> set (drop m (X @ k # Y)) \<longleftrightarrow> m \<le> length X"
proof (cases "m \<le> length X")
  case True
  then show ?thesis by simp
next
  case False
  then obtain j where m: "m = Suc (length X + j)"
    by (auto simp: not_le less_iff_Suc_add)
  have "k \<notin> set (drop j Y)"
    using assms(2) by (auto dest: in_set_dropD)
  with False show ?thesis
    by (simp add: m)
qed

lemma remdups_split:
  "remdups (xs @ ys) = remdups (filter (\<lambda>x. x \<notin> set ys) xs) @ remdups ys"
  by (induction xs) auto

text \<open>
  \<open>recent\<close> read without \<open>remdups\<close>: a block whose last touch is followed by the touches
  \<open>post\<close> is among the \<open>n\<close> most recent ones exactly when fewer than \<open>n\<close> distinct blocks
  were touched after it.
\<close>

lemma recent_iff:
  assumes ks: "ks = pre @ k # post" and last: "k \<notin> set post"
  shows "k \<in> set (recent n ks) \<longleftrightarrow> card (set post) < n"
proof -
  define X where "X = remdups (filter (\<lambda>x. x \<notin> set (k # post)) pre)"
  define Y where "Y = remdups post"
  have "remdups (k # post) = k # Y"
    using last by (simp add: Y_def)
  then have r: "remdups ks = X @ k # Y"
    unfolding ks X_def by (simp only: remdups_split [of pre "k # post"])
  have x: "k \<notin> set X" and y: "k \<notin> set Y"
    using last by (simp_all add: X_def Y_def)
  have "k \<in> set (recent n ks) \<longleftrightarrow> length (X @ k # Y) - n \<le> length X"
    unfolding recent_def lastn_def r by (rule in_drop_around [OF x y])
  also have "\<dots> \<longleftrightarrow> length Y < n"
    by (simp only: length_append list.size) arith
  also have "length Y = card (set post)"
    by (simp add: Y_def length_remdups_card_conv)
  finally show ?thesis .
qed

lemma recent_subset: "set (recent n ks) \<subseteq> set ks"
  by (auto simp: recent_def lastn_def dest: in_set_dropD)

lemma keys_without: "map fst (filter (\<lambda>p. fst p \<noteq> k) c) = removeAll k (map fst c)"
  by (induction c) auto

lemma update_cache_keys:
  assumes "0 < cache_size d"
  shows "\<exists>d' ev. update_cache d k dat = (d', ev, Inr ())
           \<and> map fst (cache d') = lru_touch (nat (cache_size d)) (map fst (cache d)) k
           \<and> d' = d\<lparr>cache := cache d'\<rparr>"
proof (cases "k \<in> fst ` set (cache d)")
  case True
  then obtain v where "map_of (cache d) k = Some v"
    by (metis map_of_eq_None_iff not_Some_eq)
  with True show ?thesis
    by (simp add: update_cache_def move_to_end_def lru_touch_def keys_without)
next
  case False
  show ?thesis
  proof (cases "cache d")
    case Nil
    with False assms show ?thesis by (simp add: update_cache_def lru_touch_def)
  next
    case (Cons e rest)
    with False assms show ?thesis
      by (auto simp: update_cache_def popitem_first_def lru_touch_def)
  qed
qed

lemma py_pos_in_range:
  "- tb \<le> i \<Longrightarrow> i < tb \<Longrightarrow> \<exists>p. py_pos (nat tb) i = Some p"
  by (simp add: py_pos_def)

lemma blk_step_touching:
  assumes inv: "imd_inv tb cs d" and pos: "0 < cs"
    and t: "touches tb c" and lo: "- tb \<le> call_block c"
  shows "\<exists>d'. blk_step d c = Inr d' \<and> imd_inv tb cs d'
           \<and> map fst (cache d') = lru_touch (nat cs) (map fst (cache d)) (call_block c)"
proof (cases c)
  case (WriteBlock i dat f)
  with t lo have i: "i < tb" "- tb \<le> i" and f: "\<not> f"
    by (simp_all add: touches_def)
  from py_pos_in_range [OF i(2) i(1)] obtain p where p: "py_pos (nat tb) i = Some p"
    by blast
  let ?d2 = "d\<lparr>storage := (storage d)[p := py_prefix dat (block_size d)],
               block_state := (block_state d)[p := BlockUsed]\<rparr>"
  have "0 < cache_size ?d2" using inv pos by (simp add: imd_inv_def)
  from update_cache_keys [OF this, of i "py_prefix dat (block_size d)"]
  obtain d3 ev3 where uc: "update_cache ?d2 i (py_prefix dat (block_size d)) = (d3, ev3, Inr ())"
    and keys: "map fst (cache d3) = lru_touch (nat (cache_size ?d2)) (map fst (cache ?d2)) i"
    and fr: "d3 = ?d2\<lparr>cache := cache d3\<rparr>"
    by blast
  have step: "blk_step d c = Inr d3"
    using WriteBlock i f p uc inv by (simp add: write_block_def imd_inv_def Let_def)
  have "imd_inv tb cs d3"
    using inv by (subst fr) (simp add: imd_inv_def)
  with step keys inv WriteBlock show ?thesis
    by (simp add: imd_inv_def)
next
  case (ReadBlock i f)
  with t lo have i: "i < tb" "- tb \<le> i" and f: "\<not> f"
    by (simp_all add: touches_def)
  from py_pos_in_range [OF i(2) i(1)] obtain p where p: "py_pos (nat tb) i = Some p"
    by blast
  have cs: "0 < cache_size d" using inv pos by (simp add: imd_inv_def)
  show ?thesis
  proof (cases "map_of (cache d) i")
    case None
    from update_cache_keys [OF cs, of i "storage d ! p"]
    obtain d1 ev1 where uc: "update_cache d i (storage d ! p) = (d1, ev1, Inr ())"
      and keys: "map fst (cache d1) = lru_touch (nat (cache_size d)) (map fst (cache d)) i"
      and fr: "d1 = d\<lparr>cache := cache d1\<rparr>"
      by blast
    have step: "blk_step d c = Inr d1"
      using ReadBlock i f p uc inv None by (simp add: read_block_def imd_inv_def)
    have "imd_inv tb cs d1"
      using inv by (subst fr) (simp add: imd_inv_def)
    with step keys inv ReadBlock show ?thesis
      by (simp add: imd_inv_def)
  next
    case (Some v)
    then have "i \<in> set (map fst (cache d))"
      by (metis map_of_eq_None_iff option.distinct(1) set_map)
    with Some ReadBlock i f inv show ?thesis
      by (simp add: read_block_def move_to_end_def lru_touch_def keys_without imd_inv_def)
  qed
qed

lemma blk_step_not_touching: "total_blocks d = tb \<Longrightarrow> \<not> touches tb c \<Longrightarrow> blk_step d c = Inr d"
  by (cases c) (auto simp: touches_def write_block_def read_block_def)

lemma blk_run_snoc:
  "blk_run d (cs @ [c]) = (case blk_run d cs of Inl e \<Rightarrow> Inl e | Inr d' \<Rightarrow> blk_step d' c)"
  by (induction cs arbitrary: d) (auto split: sum.splits)

lemma touched_snoc:
  "touched tb (cs @ [c]) = (if touches tb c then touched tb cs @ [call_block c] else touched tb cs)"
  by (simp add: touched_def)

lemma blk_run_cache:
  assumes inv: "imd_inv tb cs d0" and empty: "cache d0 = []" and pos: "0 < cs"
    and lo: "\<forall>c\<in>set calls. - tb \<le> call_block c"
  shows "\<exists>d. blk_run d0 calls = Inr d \<and> imd_inv tb cs d
           \<and> map fst (cache d) = recent (nat cs) (touched tb calls)"
  using lo
proof (induction calls rule: rev_induct)
  case Nil
  with inv empty show ?case by (simp add: recent_def lastn_def touched_def)
next
  case (snoc c calls)
  then obtain d where run: "blk_run d0 calls = Inr d" and invd: "imd_inv tb cs d"
    and keys: "map fst (cache d) = recent (nat cs) (touched tb calls)"
    by auto
  show ?case
  proof (cases "touches tb c")
    case True
    from snoc.prems have "- tb \<le> call_block c" by simp
    from blk_step_touching [OF invd pos True this]
    obtain d' where "blk_step d c = Inr d'" and "imd_inv tb cs d'"
      and "map fst (cache d') = lru_touch (nat cs) (map fst (cache d)) (call_block c)"
      by blast
    with run keys True pos show ?thesis
      by (simp add: blk_run_snoc touched_snoc recent_snoc)
  next
    case False
    from invd have "total_blocks d = tb" by (simp add: imd_inv_def)
    from blk_step_not_touching [OF this False] run invd keys False show ?thesis
      by (simp add: blk_run_snoc touched_snoc)
  qed
qed

lemma init_imd_inv:
  "InternalMemoryDevice_init nm cap bs cs = Inr d0 \<Longrightarrow> imd_inv (cap div bs) cs d0 \<and> cache d0 = []"
  by (auto simp: InternalMemoryDevice_init_def imd_inv_def split: if_splits)

lemma fresh_ssd_constructed: "InternalMemoryDevice_init ''SSD'' 1024 256 2 = Inr fresh_ssd"
  by (simp add: InternalMemoryDevice_init_def fresh_ssd_def eval_nat_numeral)

text \<open>
  C4. Take an internal device fresh from its constructor with \<open>cache_size = cs > 0\<close>,
  run any sequence \<open>calls\<close> of \<open>read_block\<close>/\<open>write_block\<close> calls and then one more call
  \<open>c\<close> (indices not below \<open>-total_blocks\<close>, so that no call raises IndexError; any
  outcomes of the failure draws). Then every call returns, and for the device \<open>d\<close>
  after \<open>calls\<close> and \<open>d'\<close> after \<open>c\<close>: the cache of \<open>d\<close> holds at most \<open>cs\<close> entries; its
  keys are exactly the \<open>cs\<close> most recently touched block indices, least recent first,
  so exactly \<open>cs\<close> of them once more than \<open>cs\<close> distinct blocks were touched; if \<open>c\<close>
  touches the cache (hit or fresh insert) its block is at the most-recently-used end
  of the cache of \<open>d'\<close>, and the keys changed by one LRU step: a hit only moves the
  key, an insert into a full cache drops exactly the first, least recently touched
  key; a call that fails the range check or draws a failure leaves the device as it is.
\<close>

theorem lru_cache_strict:
  assumes init: "InternalMemoryDevice_init nm cap bs cs = Inr d0"
    and pos: "0 < cs"
    and lo: "\<forall>x\<in>set (calls @ [c]). - (cap div bs) \<le> call_block x"
  shows "\<exists>d d'. blk_run d0 calls = Inr d \<and> blk_step d c = Inr d'
           \<and> int (length (cache d)) \<le> cs
           \<and> map fst (cache d) = recent (nat cs) (touched (cap div bs) calls)
           \<and> (nat cs < card (set (touched (cap div bs) calls)) \<longrightarrow> length (cache d) = nat cs)
           \<and> (touches (cap div bs) c \<longrightarrow>
                map fst (cache d') = lru_touch (nat cs) (map fst (cache d)) (call_block c)
                \<and> last (map fst (cache d')) = call_block c)
           \<and> (\<not> touches (cap div bs) c \<longrightarrow> d' = d)"
proof -
  let ?tb = "cap div bs"
  from init have inv0: "imd_inv ?tb cs d0" and e0: "cache d0 = []"
    by (simp_all add: init_imd_inv)
  from lo have lo1: "\<forall>x\<in>set calls. - ?tb \<le> call_block x" and lo2: "- ?tb \<le> call_block c"
    by simp_all
  from blk_run_cache [OF inv0 e0 pos lo1]
  obtain d where run: "blk_run d0 calls = Inr d" and inv: "imd_inv ?tb cs d"
    and keys: "map fst (cache d) = recent (nat cs) (touched ?tb calls)"
    by blast
  have "length (map fst (cache d)) = min (nat cs) (card (set (touched ?tb calls)))"
    by (simp only: keys length_recent)
  then have len: "length (cache d) = min (nat cs) (card (set (touched ?tb calls)))"
    by simp
  have bound: "int (length (cache d)) \<le> cs"
    using len pos by simp
  have full: "nat cs < card (set (touched ?tb calls)) \<longrightarrow> length (cache d) = nat cs"
    using len by simp
  show ?thesis
  proof (cases "touches ?tb c")
    case True
    from blk_step_touching [OF inv pos True lo2]
    obtain d' where step: "blk_step d c = Inr d'"
      and k': "map fst (cache d') = lru_touch (nat cs) (map fst (cache d)) (call_block c)"
      by blast
    have "last (lru_touch (nat cs) (map fst (cache d)) (call_block c)) = call_block c"
      by (simp add: lru_touch_def)
    with run step bound keys full k' True show ?thesis
      by auto
  next
    case False
    from inv have "total_blocks d = ?tb" by (simp add: imd_inv_def)
    from blk_step_not_touching [OF this False] run bound keys full False show ?thesis
      by auto
  qed
qed

theorem lru_cache_strict_witness:
  "\<exists>d d'. blk_run fresh_ssd [WriteBlock 0 ''a'' False, ReadBlock 1 False, ReadBlock 0 False,
                               ReadBlock 3 True, WriteBlock 2 ''c'' False] = Inr d
          \<and> blk_step d (ReadBlock 1 False) = Inr d'
          \<and> map fst (cache d) = [0, 2] \<and> map fst (cache d') = [2, 1]"
proof -
  let ?calls = "[WriteBlock 0 ''a'' False, ReadBlock 1 False, ReadBlock 0 False,
                 ReadBlock 3 True, WriteBlock 2 ''c'' False]"
  have pos: "(0::int) < 2" by simp
  have lo: "\<forall>x\<in>set (?calls @ [ReadBlock 1 False]). - (1024 div 256) \<le> call_block x"
    by simp
  have t: "touched (1024 div 256) ?calls = [0, 1, 0, 2]"
    by (simp add: touched_def touches_def)
  have r: "recent (nat 2) [0, 1, 0, 2::int] = [0, 2]"
    by (simp add: recent_def lastn_def)
  have l: "lru_touch (nat 2) [0, 2::int] 1 = [2, 1]"
    by (simp add: lru_touch_def)
  have tc: "touches (1024 div 256) (ReadBlock 1 False)"
    by (simp add: touches_def)
  from lru_cache_strict [OF fresh_ssd_constructed pos lo] t r l tc
  show ?thesis by auto
qed


section \<open>Properties of the request lifecycle\<close>

text \<open>
  What \<open>handle_io\<close> does with a request for an idle device: it returns normally, the
  request leaves the queue, and the device ends idle with an empty buffer. The
  interrupt handler frees the length of the buffer whether or not the driver's
  allocation was accepted: after an accepted allocation \<open>used\<close> is back at its old
  value (when that was not negative); after a rejected one it is the old value less
  the buffer length, floored at zero.
\<close>

lemma handle_io_idle_device:
  assumes q: "io_queue s = req # rest"
    and p: "py_pos (length (devices s)) (device_id req) = Some j"
    and d: "devices s ! j = Dev d"
    and idle: "\<not> busy d"
  shows "snd (snd (handle_io s)) = Inr ()"
    and "devices (fst (handle_io s)) = (devices s)[j := Dev (d\<lparr>buffer := Text [], busy := False\<rparr>)]"
    and "io_queue (fst (handle_io s)) = rest"
    and "operation req = ''write'' \<Longrightarrow> n = int (length (py_prefix (data req) (BUFFER_SIZE s))) \<Longrightarrow>
         used (ram (fst (handle_io s)))
           = (if used (ram s) + n \<le> size_ram (ram s) then max 0 (used (ram s))
              else max 0 (used (ram s) - n))"
    and "operation req = ''read'' \<Longrightarrow>
         used (ram (fst (handle_io s)))
           = (if used (ram s) + 15 \<le> size_ram (ram s) then max 0 (used (ram s))
              else max 0 (used (ram s) - 15))"
    and "operation req \<noteq> ''write'' \<Longrightarrow> operation req \<noteq> ''read'' \<Longrightarrow>
         used (ram (fst (handle_io s))) = max 0 (used (ram s) - int (buffer_len (buffer d)))"
  using assms
  by (simp_all add: handle_io_def device_driver_def interrupt_handler_def allocate_def free_def Let_def)

text \<open>
  In the runs that start from the constructor and go through \<open>enqueue_io\<close> and
  \<open>handle_io\<close>, nothing else touches the accountant, and \<open>used\<close> is 0 between calls.
\<close>

lemma handle_io_used_zero: "used (ram s) = 0 \<Longrightarrow> used (ram (fst (handle_io s))) = 0"
  by (auto simp: handle_io_def enqueue_io_def device_driver_def interrupt_handler_def
      allocate_def free_def Let_def split: list.splits option.splits dev_obj.splits)

lemma sim_run_used_zero:
  "DeviceDriverSimulator_init rs bs qs = Inr s0 \<Longrightarrow> used (ram (sim_run s0 calls)) = 0"
proof -
  assume "DeviceDriverSimulator_init rs bs qs = Inr s0"
  then have z: "used (ram s0) = 0"
    by (auto simp: DeviceDriverSimulator_init_def RAMManager_init_def split: if_splits)
  have "\<And>s. used (ram s) = 0 \<Longrightarrow> used (ram (foldl sim_step s calls)) = 0"
  proof (induction calls)
    case Nil
    then show ?case by simp
  next
    case (Cons c calls)
    have "used (ram (sim_step s c)) = 0"
      using Cons.prems by (cases c) (simp_all add: enqueue_io_consts handle_io_used_zero)
    then show ?case using Cons.IH by simp
  qed
  with z show ?thesis by (simp add: sim_run_def)
qed

lemma tight_sim_constructed: "DeviceDriverSimulator_init 10 128 2 = Inr tight_sim"
  by (simp add: DeviceDriverSimulator_init_def tight_sim_def fresh_sim_def Device_init_def
      RAMManager_init_def)

text \<open>
  C5. Take any state that a simulator reaches from its constructor through
  \<open>enqueue_io\<close> and \<open>handle_io\<close> calls and whose head request targets an idle device.
  \<open>handle_io\<close> returns normally, the request leaves the queue, the device is idle
  afterwards (busy false, buffer empty), and the accountant is exactly as it was
  before the call, also when the allocation was rejected. The effects of a write or
  read request show the lifecycle: an accepted allocation of \<open>n\<close> bytes is followed by
  exactly one free of \<open>n\<close> bytes, made by the interrupt handler after its completion
  report; after a rejected allocation the handler makes the same call, which leaves
  \<open>used\<close> at 0.
\<close>

theorem request_restores_accountant:
  assumes init: "DeviceDriverSimulator_init ram_size buffer_size queue_size = Inr s0"
    and s: "s = sim_run s0 calls"
    and q: "io_queue s = req # rest"
    and p: "py_pos (length (devices s)) (device_id req) = Some j"
    and d: "devices s ! j = Dev d"
    and idle: "\<not> busy d"
  shows "snd (snd (handle_io s)) = Inr ()
       \<and> devices (fst (handle_io s)) = (devices s)[j := Dev (d\<lparr>buffer := Text [], busy := False\<rparr>)]
       \<and> io_queue (fst (handle_io s)) = rest
       \<and> ram (fst (handle_io s)) = ram s
       \<and> (operation req = ''write'' \<longrightarrow>
            fst (snd (handle_io s))
              = (let n = int (length (py_prefix (data req) (BUFFER_SIZE s)))
                 in (if n \<le> size_ram (ram s)
                     then [Print (RamAllocated n n (size_ram (ram s))),
                           Print (DeviceWriting (name d) (py_prefix (data req) (BUFFER_SIZE s)))]
                     else [Print (RamNotEnough n)])
                    @ [Print (InterruptDone (name d)), Print (RamFreed n 0 (size_ram (ram s)))]))
       \<and> (operation req = ''read'' \<longrightarrow>
            fst (snd (handle_io s))
              = (if 15 \<le> size_ram (ram s)
                 then [Print (RamAllocated 15 15 (size_ram (ram s))),
                       Print (DeviceReading (name d) ''Simulated input'')]
                 else [Print (RamNotEnough 15)])
                @ [Print (InterruptDone (name d)), Print (RamFreed 15 0 (size_ram (ram s)))])"
proof -
  have z: "used (ram s) = 0"
    unfolding s using init by (rule sim_run_used_zero)
  have res: "snd (snd (handle_io s)) = Inr ()"
    using q p d idle by (rule handle_io_idle_device(1))
  have dev: "devices (fst (handle_io s))
             = (devices s)[j := Dev (d\<lparr>buffer := Text [], busy := False\<rparr>)]"
    using q p d idle by (rule handle_io_idle_device(2))
  have que: "io_queue (fst (handle_io s)) = rest"
    using q p d idle by (rule handle_io_idle_device(3))
  have ram: "ram (fst (handle_io s)) = ram s"
  proof (cases "ram s")
    case (fields sz u)
    with z have "ram s = \<lparr>size_ram = sz, used = 0\<rparr>" by simp
    with q p d idle show ?thesis
      by (simp add: handle_io_def device_driver_def interrupt_handler_def allocate_def free_def
          Let_def)
  qed
  have w: "operation req = ''write'' \<longrightarrow>
            fst (snd (handle_io s))
              = (let n = int (length (py_prefix (data req) (BUFFER_SIZE s)))
                 in (if n \<le> size_ram (ram s)
                     then [Print (RamAllocated n n (size_ram (ram s))),
                           Print (DeviceWriting (name d) (py_prefix (data req) (BUFFER_SIZE s)))]
                     else [Print (RamNotEnough n)])
                    @ [Print (InterruptDone (name d)), Print (RamFreed n 0 (size_ram (ram s)))])"
    using q p d idle z
    by (simp add: handle_io_def device_driver_def interrupt_handler_def allocate_def free_def Let_def)
  have rd: "operation req = ''read'' \<longrightarrow>
            fst (snd (handle_io s))
              = (if 15 \<le> size_ram (ram s)
                 then [Print (RamAllocated 15 15 (size_ram (ram s))),
                       Print (DeviceReading (name d) ''Simulated input'')]
                 else [Print (RamNotEnough 15)])
                @ [Print (InterruptDone (name d)), Print (RamFreed 15 0 (size_ram (ram s)))]"
    using q p d idle z
    by (simp add: handle_io_def device_driver_def interrupt_handler_def allocate_def free_def Let_def)
  from res dev que ram w rd show ?thesis by blast
qed

theorem request_restores_accountant_witness:
  "snd (snd (handle_io (sim_run tight_sim
        [EnqueueIO 1 ''write'' ''0123456789abcdefghijklmnopqrstuv'']))) = Inr ()
   \<and> fst (snd (handle_io (sim_run tight_sim
        [EnqueueIO 1 ''write'' ''0123456789abcdefghijklmnopqrstuv''])))
       = [Print (RamNotEnough 32), Print (InterruptDone ''USB Stick''), Print (RamFreed 32 0 10)]
   \<and> ram (fst (handle_io (sim_run tight_sim
        [EnqueueIO 1 ''write'' ''0123456789abcdefghijklmnopqrstuv''])))
       = \<lparr>size_ram = 10, used = 0\<rparr>
   \<and> devices (fst (handle_io (sim_run tight_sim
        [EnqueueIO 1 ''write'' ''0123456789abcdefghijklmnopqrstuv'']))) ! 1
       = Dev \<lparr>name = ''USB Stick'', busy = False, buffer = Text []\<rparr>
   \<and> fst (snd (handle_io (sim_run fresh_sim [EnqueueIO 1 ''write'' ''hello''])))
       = [Print (RamAllocated 5 5 1024), Print (DeviceWriting ''USB Stick'' ''hello''),
          Print (InterruptDone ''USB Stick''), Print (RamFreed 5 0 1024)]
   \<and> ram (fst (handle_io (sim_run fresh_sim [EnqueueIO 1 ''write'' ''hello''])))
       = \<lparr>size_ram = 1024, used = 0\<rparr>"
proof -
  let ?big = "''0123456789abcdefghijklmnopqrstuv''"
  let ?usb = "\<lparr>name = ''USB Stick'', busy = False, buffer = Text []\<rparr>"
  let ?breq = "\<lparr>device_id = 1, operation = ''write'', data = ?big\<rparr>"
  let ?hreq = "\<lparr>device_id = 1, operation = ''write'', data = ''hello''\<rparr>"
  let ?T = "sim_run tight_sim [EnqueueIO 1 ''write'' ?big]"
  let ?F = "sim_run fresh_sim [EnqueueIO 1 ''write'' ''hello'']"
  have t: "?T = tight_sim\<lparr>io_queue := [?breq]\<rparr>"
    by (simp add: sim_run_def enqueue_io_def deque_append_def tight_sim_def fresh_sim_def
        py_pos_def Let_def)
  have f: "?F = fresh_sim\<lparr>io_queue := [?hreq]\<rparr>"
    by (simp add: sim_run_def enqueue_io_def deque_append_def fresh_sim_def py_pos_def Let_def)
  have tq: "io_queue ?T = ?breq # []"
    and tp: "py_pos (length (devices ?T)) (device_id ?breq) = Some 1"
    and td: "devices ?T ! 1 = Dev ?usb"
    and tr: "ram ?T = \<lparr>size_ram = 10, used = 0\<rparr>"
    and tb: "py_prefix ?big (BUFFER_SIZE ?T) = ?big"
    and tl: "length (devices ?T) = 3"
    unfolding t by (simp_all add: tight_sim_def fresh_sim_def py_pos_def py_prefix_def)
  have fq: "io_queue ?F = ?hreq # []"
    and fp: "py_pos (length (devices ?F)) (device_id ?hreq) = Some 1"
    and fd: "devices ?F ! 1 = Dev ?usb"
    and fr: "ram ?F = \<lparr>size_ram = 1024, used = 0\<rparr>"
    and fb: "py_prefix ''hello'' (BUFFER_SIZE ?F) = ''hello''"
    unfolding f by (simp_all add: fresh_sim_def py_pos_def py_prefix_def)
  have idle: "\<not> busy ?usb" by simp
  note a = request_restores_accountant [OF tight_sim_constructed refl tq tp td idle]
  note b = request_restores_accountant [OF fresh_sim_constructed refl fq fp fd idle]
  from a tr tb tl have
    "snd (snd (handle_io ?T)) = Inr ()"
    "fst (snd (handle_io ?T))
       = [Print (RamNotEnough 32), Print (InterruptDone ''USB Stick''), Print (RamFreed 32 0 10)]"
    "ram (fst (handle_io ?T)) = \<lparr>size_ram = 10, used = 0\<rparr>"
    "devices (fst (handle_io ?T)) ! 1 = Dev ?usb"
    by simp_all
  moreover from b fr fb have
    "fst (snd (handle_io ?F))
       = [Print (RamAllocated 5 5 1024), Print (DeviceWriting ''USB Stick'' ''hello''),
          Print (InterruptDone ''USB Stick''), Print (RamFreed 5 0 1024)]"
    "ram (fst (handle_io ?F)) = \<lparr>size_ram = 1024, used = 0\<rparr>"
    by simp_all
  ultimately show ?thesis by simp
qed

end
